(* ===== verification/Prelude.thy ===== *)
theory Prelude
  imports Main
begin

text \<open>
  Shared vocabulary of the equinox-js development: the names of the model's
  types, the error taxonomy of the engine (spec section 7), the property that
  makes a fold usable with a cache (spec section 3), and the generic lemmas on
  lists, options and maps that the component theories share.  The collection
  \<open>model_simps\<close> gathers the unfolding facts of the operations of the store, the
  decider and the scheduler, with which \<open>simp\<close> evaluates a concrete run.
\<close>

named_theorems model_simps "unfolding facts of the model's operations"

subsection \<open>Names of the model's types\<close>

text \<open>
  Versions and positions are JavaScript \<open>bigint\<close>s in the code, so they are
  unbounded integers here.  A version is the position of the last event of a
  stream, \<open>-1\<close> for an empty stream.
\<close>

type_synonym version = int
type_synonym global_position = int

subsection \<open>Errors\<close>

text \<open>
  The failures the engine surfaces to its caller (spec section 7), one
  constructor each.  \<open>VersionConflict expected actual\<close> is the store's
  compare-and-append failure; \<open>RetryBudgetExceeded attempts version\<close> is the
  fatal end of the conflict retry loop; \<open>UpcastValidationError type\<close> is a
  recognised event type whose payload fails its validator; \<open>JsonParseError\<close> is
  \<open>JSON.parse\<close> throwing; \<open>ConditionNotSupported\<close> is a filtered category read
  against a store without the feature; \<open>InvalidConsumerGroup\<close> is a consumer
  group whose member is not below its size; \<open>DecompressError\<close> is
  \<open>inflateRaw\<close> rejecting its input.
\<close>

datatype error =
    VersionConflict version version
  | RetryBudgetExceeded nat version
  | UpcastValidationError string
  | JsonParseError
  | ConditionNotSupported
  | InvalidConsumerGroup
  | DecompressError

subsection \<open>Folds\<close>

text \<open>
  A fold is incrementally composable when folding a split sequence in two
  steps gives the fold of the whole (spec section 3).  This is what makes a
  cached partial load correct.
\<close>

definition composable :: "('s \<Rightarrow> 'e list \<Rightarrow> 's) \<Rightarrow> bool" where
  "composable f \<longleftrightarrow> (\<forall>s xs ys. f (f s xs) ys = f s (xs @ ys))"

lemma composableD: "composable f \<Longrightarrow> f (f s xs) ys = f s (xs @ ys)"
  by (simp add: composable_def)

lemma composable_foldl: "composable (foldl g)"
  by (simp add: composable_def)

text \<open>
  The folds of the example domains keep only the last event: \<open>es.length ?
  evolve(s, es[es.length - 1]) : s\<close>.  Such a fold is composable exactly when
  \<open>evolve\<close> does not look at the state, and it then agrees with the full replay
  \<open>foldl evolve\<close>.
\<close>

lemma last_event_fold_composable:
  assumes "\<And>s s' e. g s e = g s' e"
  shows "composable (\<lambda>s es. if es = [] then s else g s (last es))"
  unfolding composable_def
proof (intro allI)
  fix s xs ys
  show "(\<lambda>s es. if es = [] then s else g s (last es))
          ((\<lambda>s es. if es = [] then s else g s (last es)) s xs) ys
        = (\<lambda>s es. if es = [] then s else g s (last es)) s (xs @ ys)"
    using assms by (cases "ys = []") (auto simp: last_append)
qed

lemma last_event_fold_foldl:
  assumes "\<And>s s' e. g s e = g s' e"
  shows "(if es = [] then s else g s (last es)) = foldl g s es"
proof (induction es arbitrary: s rule: rev_induct)
  case Nil
  show ?case by simp
next
  case (snoc e es)
  show ?case using assms[of s e] by simp
qed

subsection \<open>Lists\<close>

lemma map_filter_append [simp]:
  "List.map_filter f (xs @ ys) = List.map_filter f xs @ List.map_filter f ys"
  by (simp add: List.map_filter_def)

lemma map_filter_map_Some [simp]:
  "(\<And>x. x \<in> set xs \<Longrightarrow> f (g x) = Some x) \<Longrightarrow> List.map_filter f (map g xs) = xs"
  by (induction xs) auto

text \<open>Looking up a key in an association list whose values were mapped.\<close>

lemma map_of_map_snd: "map_of (map (\<lambda>p. (fst p, f (snd p))) kvs) k = map_option f (map_of kvs k)"
  by (induction kvs) auto

lemma map_filter_length_le: "length (List.map_filter f xs) \<le> length xs"
  by (induction xs) (auto split: option.splits)

subsection \<open>Decoding a list where each element may throw\<close>

text \<open>
  \<open>map_filter_err f xs\<close> applies a decoder that either throws (\<open>Inl\<close>), skips
  the element (\<open>Inr None\<close>) or yields a value (\<open>Inr (Some y)\<close>), in list order,
  stopping at the first exception as a JavaScript loop over the events does.
\<close>

fun map_filter_err :: "('a \<Rightarrow> 'x + 'b option) \<Rightarrow> 'a list \<Rightarrow> 'x + 'b list" where
  "map_filter_err f [] = Inr []"
| "map_filter_err f (x # xs) =
     (case f x of
        Inl err \<Rightarrow> Inl err
      | Inr r \<Rightarrow> (case map_filter_err f xs of
                   Inl err \<Rightarrow> Inl err
                 | Inr ys \<Rightarrow> Inr (case r of None \<Rightarrow> ys | Some y \<Rightarrow> y # ys)))"

lemma map_filter_err_append:
  "map_filter_err f (xs @ ys) =
     (case map_filter_err f xs of
        Inl err \<Rightarrow> Inl err
      | Inr as \<Rightarrow> (case map_filter_err f ys of Inl err \<Rightarrow> Inl err | Inr bs \<Rightarrow> Inr (as @ bs)))"
  by (induction xs) (auto split: sum.splits option.splits)

lemma map_filter_err_total:
  "(\<And>x. x \<in> set xs \<Longrightarrow> f x = Inr (g x)) \<Longrightarrow> map_filter_err f xs = Inr (List.map_filter g xs)"
  by (induction xs) (auto split: option.splits)

lemma map_filter_err_Inr_length:
  "map_filter_err f xs = Inr ys \<Longrightarrow> length ys \<le> length xs"
  by (induction xs arbitrary: ys) (auto split: sum.splits option.splits)

subsection \<open>Index lists\<close>

text \<open>A list whose keys are consecutive integers from \<open>a\<close>: cutting it at a key is take/drop.\<close>

lemma filter_index_le_take:
  "map f xs = map (\<lambda>k. a + int k) [0..<length xs] \<Longrightarrow>
   filter (\<lambda>x. f x \<le> v) xs = take (nat (v - a + 1)) xs"
proof (induction xs arbitrary: a)
  case Nil
  then show ?case by simp
next
  case (Cons x xs)
  have "map (\<lambda>k. a + int k) [0..<length (x # xs)] = a # map (\<lambda>k. (a + 1) + int k) [0..<length xs]"
    by (simp only: length_Cons map_upt_Suc) (simp add: algebra_simps)
  then have fx: "f x = a" and rest: "map f xs = map (\<lambda>k. (a + 1) + int k) [0..<length xs]"
    using Cons.prems by simp_all
  show ?case
  proof (cases "a \<le> v")
    case True
    then have "nat (v - a + 1) = Suc (nat (v - (a + 1) + 1))" by simp
    with True fx Cons.IH[OF rest] show ?thesis by simp
  next
    case False
    then have "nat (v - (a + 1) + 1) = 0" "nat (v - a + 1) = 0" by simp_all
    with False fx Cons.IH[OF rest] show ?thesis by (simp add: filter_empty_conv)
  qed
qed

lemma filter_index_gt_drop:
  "map f xs = map (\<lambda>k. a + int k) [0..<length xs] \<Longrightarrow>
   filter (\<lambda>x. v < f x) xs = drop (nat (v - a + 1)) xs"
proof (induction xs arbitrary: a)
  case Nil
  then show ?case by simp
next
  case (Cons x xs)
  have "map (\<lambda>k. a + int k) [0..<length (x # xs)] = a # map (\<lambda>k. (a + 1) + int k) [0..<length xs]"
    by (simp only: length_Cons map_upt_Suc) (simp add: algebra_simps)
  then have fx: "f x = a" and rest: "map f xs = map (\<lambda>k. (a + 1) + int k) [0..<length xs]"
    using Cons.prems by simp_all
  show ?case
  proof (cases "a \<le> v")
    case True
    then have "nat (v - a + 1) = Suc (nat (v - (a + 1) + 1))" by simp
    with True fx Cons.IH[OF rest] show ?thesis by simp
  next
    case False
    then have "nat (v - (a + 1) + 1) = 0" "nat (v - a + 1) = 0" by simp_all
    with False fx Cons.IH[OF rest] show ?thesis by simp
  qed
qed

text \<open>Lists and quantifiers over the three members of a group of three.\<close>

lemma filter_mod3_lengths:
  "length (filter (\<lambda>x. f x mod 3 = (0::nat)) xs) + length (filter (\<lambda>x. f x mod 3 = 1) xs) +
   length (filter (\<lambda>x. f x mod 3 = 2) xs) = length xs"
proof (induction xs)
  case (Cons x xs)
  have "f x mod 3 = 0 \<or> f x mod 3 = 1 \<or> f x mod 3 = 2" by presburger
  then show ?case using Cons by auto
qed simp

lemma map_upt_3: "map f [0..<3] = [f 0, f 1, f 2]"
  by (simp add: upt_conv_Cons eval_nat_numeral)

lemma nth_3: "[a, b, c] ! 0 = a" "[a, b, c] ! 1 = b" "[a, b, c] ! 2 = c"
  by (simp_all add: numeral_2_eq_2)

lemma conj_pairs_iff: "(A \<Longrightarrow> B \<Longrightarrow> C \<Longrightarrow> x \<and> y \<and> z) \<Longrightarrow> ((A \<and> x) \<and> (B \<and> y) \<and> (C \<and> z) \<longleftrightarrow> A \<and> B \<and> C)"
  by blast

lemma all_less_3: "(\<forall>i < (3::nat). P i) \<longleftrightarrow> P 0 \<and> P 1 \<and> P 2"
  by (auto simp: less_Suc_eq eval_nat_numeral)

lemma upt_shift_int:
  "map (\<lambda>k. int k + b) [0..<n] @ map (\<lambda>k. (int n + b) + int k) [0..<m] = map (\<lambda>k. int k + b) [0..<n + m]"
proof -
  have "[n..<n + m] = map (\<lambda>i. i + n) [0..<m]"
    by (simp add: map_add_upt add.commute)
  then have "map (\<lambda>k. (int n + b) + int k) [0..<m] = map (\<lambda>k. int k + b) [n..<n + m]"
    by (simp add: algebra_simps)
  moreover have "[0..<n + m] = [0..<n] @ [n..<n + m]"
    by (rule upt_add_eq_append) simp
  ultimately show ?thesis by simp
qed

end
