(* ===== verification/Json.thy ===== *)
theory Json
  imports Prelude
begin

text \<open>
  The JavaScript builtins \<open>JSON.stringify\<close> and \<open>JSON.parse\<close> that the codecs
  call (\<^verbatim>\<open>Codec.ts\<close> line 54 and 62, and the JSON codec).  A JSON value is
  \<open>null\<close>, a boolean, a number, a string, an array or an object (an association
  list in insertion order).  Strings are byte strings (UTF-8), so a character is a
  byte.  Limits of the model: numbers are integers (a fraction or an exponent is
  outside it, and \<open>json_parse\<close> rejects it); \<open>\u\<close> escapes above \<open>0xFF\<close>
  are rejected; array-index keys are not moved to the front of an object.

  \<open>stringify\<close> prints as \<open>JSON.stringify\<close> does without indentation: escapes
  \<open>"\<close>, \<open>\\\<close> and the control characters (\<open>\b \t \n \f \r\<close> by name,
  the others as \<open>\u00xx\<close> in lower-case hex).  \<open>json_parse\<close> is a recursive
  descent parser: whitespace between tokens, no trailing commas, no leading
  zeros; a repeated object key keeps its first position and its last value.  The
  parser runs on fuel, one unit per nested value, and \<open>json_parse\<close> gives it
  one more unit than the input has characters.

  The main result is the round trip \<open>json_parse_stringify\<close>: parsing the
  printed text of a value whose objects have distinct keys gives the value back.
\<close>

datatype json = JNull | JBool bool | JNum int | JStr string | JArr "json list" | JObj "(string \<times> json) list"

definition hex_digit :: "nat \<Rightarrow> char" where
  "hex_digit n = (if n < 10 then char_of (48 + n) else char_of (87 + n))"

definition escape_char :: "char \<Rightarrow> string" where
  "escape_char c =
     (if c = CHR 0x22 then [CHR 0x5C, CHR 0x22]
      else if c = CHR 0x5C then [CHR 0x5C, CHR 0x5C]
      else if c = CHR 0x08 then [CHR 0x5C, CHR ''b'']
      else if c = CHR 0x09 then [CHR 0x5C, CHR ''t'']
      else if c = CHR 0x0A then [CHR 0x5C, CHR ''n'']
      else if c = CHR 0x0C then [CHR 0x5C, CHR ''f'']
      else if c = CHR 0x0D then [CHR 0x5C, CHR ''r'']
      else if of_char c < (32::nat)
      then [CHR 0x5C, CHR ''u'', CHR ''0'', CHR ''0'', hex_digit (of_char c div 16), hex_digit (of_char c mod 16)]
      else [c])"

definition quote :: "string \<Rightarrow> string" where
  "quote s = CHR 0x22 # concat (map escape_char s) @ [CHR 0x22]"

fun nat_digits :: "nat \<Rightarrow> string" where
  "nat_digits n = (if n < 10 then [char_of (48 + n)] else nat_digits (n div 10) @ [char_of (48 + n mod 10)])"

definition show_int :: "int \<Rightarrow> string" where
  "show_int i = (if i < 0 then CHR ''-'' # nat_digits (nat (- i)) else nat_digits (nat i))"

fun commas :: "string list \<Rightarrow> string" where
  "commas [] = []"
| "commas [x] = x"
| "commas (x # xs) = x @ CHR '','' # commas xs"

fun stringify :: "json \<Rightarrow> string" where
  "stringify JNull = ''null''"
| "stringify (JBool b) = (if b then ''true'' else ''false'')"
| "stringify (JNum i) = show_int i"
| "stringify (JStr s) = quote s"
| "stringify (JArr vs) = CHR ''['' # commas (map stringify vs) @ '']''"
| "stringify (JObj kvs) = CHR ''{'' # commas (map (\<lambda>(k, v). quote k @ CHR '':'' # stringify v) kvs) @ ''}''"

definition is_ws :: "char \<Rightarrow> bool" where
  "is_ws c \<longleftrightarrow> c = CHR 0x20 \<or> c = CHR 0x09 \<or> c = CHR 0x0A \<or> c = CHR 0x0D"

definition is_digit :: "char \<Rightarrow> bool" where
  "is_digit c \<longleftrightarrow> (48::nat) \<le> of_char c \<and> (of_char c :: nat) \<le> 57"

definition digit_val :: "char \<Rightarrow> nat" where
  "digit_val c = of_char c - 48"

definition hex_val :: "char \<Rightarrow> nat option" where
  "hex_val c =
     (let k = (of_char c :: nat)
      in if 48 \<le> k \<and> k \<le> 57 then Some (k - 48)
         else if 97 \<le> k \<and> k \<le> 102 then Some (k - 87)
         else if 65 \<le> k \<and> k \<le> 70 then Some (k - 55) else None)"

fun hex_num :: "string \<Rightarrow> nat option" where
  "hex_num [] = Some 0"
| "hex_num (c # cs) = (case hex_val c of None \<Rightarrow> None
      | Some h \<Rightarrow> map_option (\<lambda>r. h * 16 ^ length cs + r) (hex_num cs))"

definition simple_escape :: "char \<Rightarrow> char option" where
  "simple_escape e =
     (if e = CHR 0x22 then Some (CHR 0x22) else if e = CHR 0x5C then Some (CHR 0x5C)
      else if e = CHR ''/'' then Some (CHR ''/'') else if e = CHR ''b'' then Some (CHR 0x08)
      else if e = CHR ''f'' then Some (CHR 0x0C) else if e = CHR ''n'' then Some (CHR 0x0A)
      else if e = CHR ''r'' then Some (CHR 0x0D) else if e = CHR ''t'' then Some (CHR 0x09) else None)"

definition cons_fst :: "'a \<Rightarrow> ('a list \<times> 'b) option \<Rightarrow> ('a list \<times> 'b) option" where
  "cons_fst x r = map_option (\<lambda>(xs, t). (x # xs, t)) r"

fun skip_ws :: "string \<Rightarrow> string" where
  "skip_ws [] = []"
| "skip_ws (c # r) = (if is_ws c then skip_ws r else c # r)"

fun parse_string :: "string \<Rightarrow> (string \<times> string) option" where
  "parse_string [] = None"
| "parse_string (c # r) =
     (if c = CHR 0x22 then Some ([], r)
      else if c = CHR 0x5C then
        (case r of
           [] \<Rightarrow> None
         | e # r' \<Rightarrow>
             if e = CHR ''u'' then
               (if length r' < 4 then None
                else case hex_num (take 4 r') of
                       None \<Rightarrow> None
                     | Some k \<Rightarrow> if k < 256 then cons_fst (char_of k) (parse_string (drop 4 r')) else None)
             else (case simple_escape e of
                     None \<Rightarrow> None
                   | Some ch \<Rightarrow> cons_fst ch (parse_string r')))
      else if of_char c < (32::nat) then None
      else cons_fst c (parse_string r))"

definition parse_int :: "string \<Rightarrow> (int \<times> string) option" where
  "parse_int s =
     (let neg = (s \<noteq> [] \<and> hd s = CHR ''-'');
          s1 = (if neg then tl s else s);
          ds = takeWhile is_digit s1; r = dropWhile is_digit s1
      in if ds = [] \<or> (hd ds = CHR ''0'' \<and> length ds > 1) then None
         else if r \<noteq> [] \<and> (hd r = CHR ''.'' \<or> hd r = CHR ''e'' \<or> hd r = CHR ''E'') then None
         else let n = int (foldl (\<lambda>a d. 10 * a + digit_val d) 0 ds)
              in Some (if neg then - n else n, r))"

definition obj_set :: "(string \<times> json) list \<Rightarrow> string \<times> json \<Rightarrow> (string \<times> json) list" where
  "obj_set kvs kv =
     (if fst kv \<in> set (map fst kvs) then map (\<lambda>p. if fst p = fst kv then kv else p) kvs else kvs @ [kv])"

function parse_value :: "nat \<Rightarrow> string \<Rightarrow> (json \<times> string) option"
  and parse_elems :: "nat \<Rightarrow> string \<Rightarrow> (json list \<times> string) option"
  and parse_members :: "nat \<Rightarrow> string \<Rightarrow> ((string \<times> json) list \<times> string) option" where
  "parse_value 0 s = None"
| "parse_value (Suc n) s =
     (case skip_ws s of
        [] \<Rightarrow> None
      | c # r \<Rightarrow>
          if take 4 (c # r) = ''null'' then Some (JNull, drop 4 (c # r))
          else if take 4 (c # r) = ''true'' then Some (JBool True, drop 4 (c # r))
          else if take 5 (c # r) = ''false'' then Some (JBool False, drop 5 (c # r))
          else if c = CHR 0x22 then map_option (\<lambda>(str, t). (JStr str, t)) (parse_string r)
          else if c = CHR ''['' then
            (case skip_ws r of
               d # r' \<Rightarrow> if d = CHR '']'' then Some (JArr [], r')
                         else map_option (\<lambda>(vs, t). (JArr vs, t)) (parse_elems n (d # r'))
             | [] \<Rightarrow> None)
          else if c = CHR ''{'' then
            (case skip_ws r of
               d # r' \<Rightarrow> if d = CHR ''}'' then Some (JObj [], r')
                         else map_option (\<lambda>(kvs, t). (JObj (foldl obj_set [] kvs), t)) (parse_members n (d # r'))
             | [] \<Rightarrow> None)
          else map_option (\<lambda>(i, t). (JNum i, t)) (parse_int (c # r)))"
| "parse_elems 0 s = None"
| "parse_elems (Suc n) s =
     (case parse_value (Suc n) s of
        None \<Rightarrow> None
      | Some (v, t) \<Rightarrow>
          (case skip_ws t of
             d # t' \<Rightarrow> if d = CHR '','' then cons_fst v (parse_elems n t')
                       else if d = CHR '']'' then Some ([v], t') else None
           | [] \<Rightarrow> None))"
| "parse_members 0 s = None"
| "parse_members (Suc n) s =
     (case skip_ws s of
        q # r \<Rightarrow>
          if q \<noteq> CHR 0x22 then None
          else (case parse_string r of
                  None \<Rightarrow> None
                | Some (k, t) \<Rightarrow>
                    (case skip_ws t of
                       col # t1 \<Rightarrow>
                         if col \<noteq> CHR '':'' then None
                         else (case parse_value (Suc n) t1 of
                                 None \<Rightarrow> None
                               | Some (v, t2) \<Rightarrow>
                                   (case skip_ws t2 of
                                      d # t3 \<Rightarrow> if d = CHR '','' then cons_fst (k, v) (parse_members n t3)
                                                else if d = CHR ''}'' then Some ([(k, v)], t3) else None
                                    | [] \<Rightarrow> None))
                     | [] \<Rightarrow> None))
      | [] \<Rightarrow> None)"
  by pat_completeness auto
termination
  by (relation "measure (\<lambda>x. case x of Inl (n, s) \<Rightarrow> 2 * n | Inr (Inl (n, s)) \<Rightarrow> 2 * n + 1
                                  | Inr (Inr (n, s)) \<Rightarrow> 2 * n + 1)") auto

definition json_parse :: "string \<Rightarrow> json option" where
  "json_parse s =
     (case parse_value (Suc (length s)) s of
        Some (v, r) \<Rightarrow> if skip_ws r = [] then Some v else None
      | None \<Rightarrow> None)"

definition num_end :: "string \<Rightarrow> bool" where
  "num_end r \<longleftrightarrow> r = [] \<or> (\<not> is_digit (hd r) \<and> hd r \<noteq> CHR ''.'' \<and> hd r \<noteq> CHR ''e'' \<and> hd r \<noteq> CHR ''E'')"

fun json_wf :: "json \<Rightarrow> bool" where
  "json_wf (JArr vs) = list_all json_wf vs"
| "json_wf (JObj kvs) = (distinct (map fst kvs) \<and> list_all (\<lambda>kv. json_wf (snd kv)) kvs)"
| "json_wf _ = True"

definition json_end :: "string \<Rightarrow> bool" where
  "json_end r \<longleftrightarrow> r = [] \<or> hd r = CHR '','' \<or> hd r = CHR '']'' \<or> hd r = CHR ''}''"

definition member_text :: "string \<times> json \<Rightarrow> string" where
  "member_text kv = quote (fst kv) @ CHR '':'' # stringify (snd kv)"

subsection \<open>Lemmas: escapes, numbers, the round trip\<close>

lemma hex_val_hex_digit: "n < 16 \<Longrightarrow> hex_val (hex_digit n) = Some n"
  by (auto simp: hex_val_def hex_digit_def Let_def)

lemma parse_string_escape:
  "parse_string (concat (map escape_char s) @ CHR 0x22 # rest) = Some (s, rest)"

proof (induction s)
  case Nil
  then show ?case by simp

next
  case (Cons c s)
  show ?case
  proof (cases "c = CHR 0x22 \<or> c = CHR 0x5C \<or> c = CHR 0x08 \<or> c = CHR 0x09 \<or> c = CHR 0x0A \<or> c = CHR 0x0C \<or> c = CHR 0x0D")
    case True
    with Cons.IH show ?thesis by (auto simp: escape_char_def simple_escape_def cons_fst_def)
  next
    case False
    show ?thesis
    proof (cases "of_char c < (32::nat)")
      case True
      let ?h = "of_char c div 16 :: nat" and ?l = "of_char c mod 16 :: nat"
      have h: "?h < 16" "?l < 16" using True by simp_all
      have "hex_num [CHR ''0'', CHR ''0'', hex_digit ?h, hex_digit ?l] = Some (of_char c)"
        using hex_val_hex_digit[OF h(1)] hex_val_hex_digit[OF h(2)]
        by (simp add: hex_val_def)
      moreover have "(of_char c :: nat) < 256" using True by simp
      ultimately show ?thesis
        using False True Cons.IH by (simp add: escape_char_def cons_fst_def)
    next
      case False2: False
      have "c \<noteq> CHR 0x22" "c \<noteq> CHR 0x5C" using False by auto
      with False False2 Cons.IH show ?thesis by (simp add: escape_char_def cons_fst_def)
    qed
  qed

qed

declare nat_digits.simps [simp del]

lemma nat_digits_props:
  "nat_digits n \<noteq> [] \<and> (\<forall>c \<in> set (nat_digits n). is_digit c) \<and>
   foldl (\<lambda>a d. 10 * a + digit_val d) 0 (nat_digits n) = n \<and>
   (0 < n \<longrightarrow> hd (nat_digits n) \<noteq> CHR ''0'') \<and> (n = 0 \<longrightarrow> nat_digits n = [CHR ''0''])"

proof (induction n rule: nat_digits.induct)
  case (1 n)
  show ?case
  proof (cases "n < 10")
    case True
    then have eq: "nat_digits n = [char_of (48 + n)]" by (simp add: nat_digits.simps[of n])
    have oc: "(of_char (char_of (48 + n)) :: nat) = 48 + n" using True by simp
    have z: "of_char (CHR ''0'') = (48::nat)" by simp
    have "0 < n \<Longrightarrow> char_of (48 + n) \<noteq> CHR ''0''"
      using oc z by (metis add_cancel_right_right less_not_refl2)
    moreover have "char_of (48 + (0::nat)) = CHR ''0''" by (metis z char_of_char add_0_right)
    moreover have "(48 + n) mod 256 = 48 + n" using True by simp
    ultimately show ?thesis
      using eq True by (cases "n = 0") (simp_all add: is_digit_def digit_val_def)
  next
    case False
    then have eq: "nat_digits n = nat_digits (n div 10) @ [char_of (48 + n mod 10)]"
      by (simp add: nat_digits.simps[of n])
    from False have "0 < n div 10" by simp
    with "1" False show ?thesis
      by (auto simp: eq is_digit_def digit_val_def)
  qed

qed

lemma parse_int_show_int:
  assumes "num_end rest"
  shows "parse_int (show_int i @ rest) = Some (i, rest)"

proof -
  let ?ds = "nat_digits (nat \<bar>i\<bar>)"
  have p: "?ds \<noteq> []" "\<forall>c \<in> set ?ds. is_digit c"
    "foldl (\<lambda>a d. 10 * a + digit_val d) 0 ?ds = nat \<bar>i\<bar>"
    "0 < nat \<bar>i\<bar> \<longrightarrow> hd ?ds \<noteq> CHR ''0''" "nat \<bar>i\<bar> = 0 \<longrightarrow> ?ds = [CHR ''0'']"
    using nat_digits_props[of "nat \<bar>i\<bar>"] by blast+
  have "takeWhile is_digit rest = [] \<and> dropWhile is_digit rest = rest"
    using assms by (cases rest) (auto simp: num_end_def)
  then have tw: "takeWhile is_digit (?ds @ rest) = ?ds" and dw: "dropWhile is_digit (?ds @ rest) = rest"
    using p(2) by (simp_all add: takeWhile_append2 dropWhile_append2)
  have lead: "\<not> (hd ?ds = CHR ''0'' \<and> 1 < length ?ds)"
    using p(4,5) by (cases "nat \<bar>i\<bar> = 0") auto
  have hd_not_minus: "hd (?ds @ rest) \<noteq> CHR ''-''"
    using p(1,2) by (cases ?ds) (auto simp: is_digit_def)
  have rest_ok: "\<not> (rest \<noteq> [] \<and> (hd rest = CHR ''.'' \<or> hd rest = CHR ''e'' \<or> hd rest = CHR ''E''))"
    using assms by (auto simp: num_end_def)
  show ?thesis
  proof (cases "i < 0")
    case True
    then have "show_int i @ rest = CHR ''-'' # ?ds @ rest" by (simp add: show_int_def)
    with True p(1,3) tw dw lead rest_ok show ?thesis by (simp add: parse_int_def Let_def)
  next
    case False
    then have "show_int i @ rest = ?ds @ rest" by (simp add: show_int_def)
    with False p(1,3) tw dw lead rest_ok hd_not_minus show ?thesis by (simp add: parse_int_def Let_def)
  qed

qed

lemma json_end_num_end: "json_end r \<Longrightarrow> num_end r"
  by (auto simp: json_end_def num_end_def is_digit_def)

lemma json_end_skip_ws: "json_end r \<Longrightarrow> skip_ws r = r"
  by (cases r) (auto simp: json_end_def is_ws_def)

lemma show_int_head:
  "show_int i \<noteq> [] \<and> (hd (show_int i) = CHR ''-'' \<or> is_digit (hd (show_int i)))"
  using nat_digits_props[of "nat (- i)"] nat_digits_props[of "nat i"]
  by (cases "nat_digits (nat (- i))"; cases "nat_digits (nat i)") (auto simp: show_int_def)

lemma stringify_head:
  "\<exists>c r. stringify v = c # r \<and> \<not> is_ws c \<and> c \<noteq> CHR '']'' \<and> c \<noteq> CHR ''}'' \<and> c \<noteq> CHR '',''"

proof (cases v)
  case (JNum i)
  then show ?thesis using show_int_head[of i]
    by (cases "show_int i") (auto simp: is_ws_def is_digit_def)

qed (auto simp: quote_def is_ws_def)

lemma skip_ws_stringify: "skip_ws (stringify v @ r) = stringify v @ r"
  using stringify_head[of v] by (auto simp: is_ws_def)

lemma foldl_obj_set: "distinct (map fst (acc @ kvs)) \<Longrightarrow> foldl obj_set acc kvs = acc @ kvs"
  by (induction kvs arbitrary: acc) (auto simp: obj_set_def)

declare parse_value.simps [simp del]

lemma parse_elems_commas:
  assumes IH: "\<And>v n rest. v \<in> set vs \<Longrightarrow> length (stringify v) < n \<Longrightarrow> json_end rest \<Longrightarrow>
                 parse_value n (stringify v @ rest) = Some (v, rest)"
    and ne: "vs \<noteq> []" and len: "length (commas (map stringify vs)) < n"
  shows "parse_elems n (commas (map stringify vs) @ CHR '']'' # rest) = Some (vs, rest)"
  using IH ne len

proof (induction vs arbitrary: n rule: induct_list012)
  case (2 v)
  then obtain m where n: "n = Suc m" by (cases n) auto
  have "parse_value (Suc m) (stringify v @ CHR '']'' # rest) = Some (v, CHR '']'' # rest)"
    by (rule "2.prems"(1)) (use "2.prems"(3) n in \<open>simp_all add: json_end_def\<close>)
  then show ?case by (simp add: n is_ws_def)

next
  case (3 v w vs)
  then obtain m where n: "n = Suc m" by (cases n) auto
  have "parse_value (Suc m) (stringify v @ CHR '','' # commas (map stringify (w # vs)) @ CHR '']'' # rest)
        = Some (v, CHR '','' # commas (map stringify (w # vs)) @ CHR '']'' # rest)"
    by (rule "3.prems"(1)) (use "3.prems"(3) n in \<open>simp_all add: json_end_def\<close>)
  moreover have "parse_elems m (commas (map stringify (w # vs)) @ CHR '']'' # rest) = Some (w # vs, rest)"
    using "3.IH"(2)[of m] "3.prems" n by simp
  ultimately show ?case by (simp add: n cons_fst_def is_ws_def)

qed simp

lemma parse_members_commas:
  assumes IH: "\<And>kv n rest. kv \<in> set kvs \<Longrightarrow> length (stringify (snd kv)) < n \<Longrightarrow> json_end rest \<Longrightarrow>
                 parse_value n (stringify (snd kv) @ rest) = Some (snd kv, rest)"
    and ne: "kvs \<noteq> []" and len: "length (commas (map member_text kvs)) < n"
  shows "parse_members n (commas (map member_text kvs) @ CHR ''}'' # rest) = Some (kvs, rest)"
  using IH ne len

proof (induction kvs arbitrary: n rule: induct_list012)
  case (2 kv)
  then obtain m where n: "n = Suc m" by (cases n) auto
  have "parse_value (Suc m) (stringify (snd kv) @ CHR ''}'' # rest) = Some (snd kv, CHR ''}'' # rest)"
    by (rule "2.prems"(1)) (use "2.prems"(3) n in \<open>simp_all add: json_end_def member_text_def\<close>)
  then show ?case
    using parse_string_escape[of "fst kv"] skip_ws_stringify
    by (simp add: n member_text_def[of kv] quote_def is_ws_def)

next
  case (3 kv kw kvs)
  then obtain m where n: "n = Suc m" by (cases n) auto
  let ?tl = "CHR '','' # commas (map member_text (kw # kvs)) @ CHR ''}'' # rest"
  have "parse_value (Suc m) (stringify (snd kv) @ ?tl) = Some (snd kv, ?tl)"
    by (rule "3.prems"(1)) (use "3.prems"(3) n in \<open>simp_all add: json_end_def member_text_def\<close>)
  moreover have "parse_members m (commas (map member_text (kw # kvs)) @ CHR ''}'' # rest) = Some (kw # kvs, rest)"
    using "3.IH"(2)[of m] "3.prems" n by simp
  ultimately show ?case
    using parse_string_escape[of "fst kv"]
    by (simp add: n member_text_def[of kv] quote_def is_ws_def cons_fst_def)

qed simp

lemma commas_Cons_head: "x \<noteq> [] \<Longrightarrow> \<exists>r. commas (x # xs) = hd x # r"
  by (cases xs) (auto simp: neq_Nil_conv)

lemma parse_value_Suc_head:
  assumes "s = c # r" "\<not> is_ws c"
  shows "parse_value (Suc m) s =
          (if take 4 (c # r) = ''null'' then Some (JNull, drop 4 (c # r))
          else if take 4 (c # r) = ''true'' then Some (JBool True, drop 4 (c # r))
          else if take 5 (c # r) = ''false'' then Some (JBool False, drop 5 (c # r))
          else if c = CHR 0x22 then map_option (\<lambda>(str, t). (JStr str, t)) (parse_string r)
          else if c = CHR ''['' then
            (case skip_ws r of
               d # r' \<Rightarrow> if d = CHR '']'' then Some (JArr [], r')
                         else map_option (\<lambda>(vs, t). (JArr vs, t)) (parse_elems m (d # r'))
             | [] \<Rightarrow> None)
          else if c = CHR ''{'' then
            (case skip_ws r of
               d # r' \<Rightarrow> if d = CHR ''}'' then Some (JObj [], r')
                         else map_option (\<lambda>(kvs, t). (JObj (foldl obj_set [] kvs), t)) (parse_members m (d # r'))
             | [] \<Rightarrow> None)
          else map_option (\<lambda>(i, t). (JNum i, t)) (parse_int (c # r)))"
  using assms by (simp add: parse_value.simps(2))

lemma stringify_obj: "stringify (JObj kvs) = CHR ''{'' # commas (map member_text kvs) @ ''}''"
proof -
  have "(\<lambda>(k, v). quote k @ CHR '':'' # stringify v) = member_text"
    by (auto simp: member_text_def fun_eq_iff)
  then show ?thesis by simp
qed

text \<open>The array and object cases of the round trip, given the round trip of the elements.\<close>

lemma parse_arr_stringify:
  assumes IH: "\<And>w k rest'. w \<in> set vs \<Longrightarrow> length (stringify w) < k \<Longrightarrow> json_end rest' \<Longrightarrow>
                 parse_value k (stringify w @ rest') = Some (w, rest')"
    and len: "length (stringify (JArr vs)) < Suc m"
  shows "parse_value (Suc m) (stringify (JArr vs) @ rest) = Some (JArr vs, rest)"
proof (cases "vs = []")
  case True
  then show ?thesis by (simp add: parse_value_Suc_head is_ws_def)
next
  case False
  then obtain v vs' where vs: "vs = v # vs'" by (cases vs) auto
  obtain c r where sv: "stringify v = c # r" and c: "\<not> is_ws c" "c \<noteq> CHR '']''"
    using stringify_head[of v] by blast
  obtain t where ct: "commas (map stringify vs) = c # t"
    using commas_Cons_head[of "stringify v" "map stringify vs'"] sv by (auto simp: vs)
  have "parse_elems m (commas (map stringify vs) @ CHR '']'' # rest) = Some (vs, rest)"
    by (rule parse_elems_commas[OF IH False]) (use len in simp_all)
  with c show ?thesis by (simp add: parse_value_Suc_head is_ws_def ct)
qed

lemma parse_obj_stringify:
  assumes IH: "\<And>kw k rest'. kw \<in> set kvs \<Longrightarrow> length (stringify (snd kw)) < k \<Longrightarrow> json_end rest' \<Longrightarrow>
                 parse_value k (stringify (snd kw) @ rest') = Some (snd kw, rest')"
    and d: "distinct (map fst kvs)" and len: "length (stringify (JObj kvs)) < Suc m"
  shows "parse_value (Suc m) (stringify (JObj kvs) @ rest) = Some (JObj kvs, rest)"
proof (cases "kvs = []")
  case True
  then show ?thesis by (simp add: parse_value_Suc_head is_ws_def)
next
  case False
  then obtain kv kvs' where kvs: "kvs = kv # kvs'" by (cases kvs) auto
  obtain t where ct: "commas (map member_text kvs) = CHR 0x22 # t"
    using commas_Cons_head[of "member_text kv" "map member_text kvs'"]
    by (auto simp: kvs member_text_def quote_def)
  have "parse_members m (commas (map member_text kvs) @ CHR ''}'' # rest) = Some (kvs, rest)"
    by (rule parse_members_commas[OF IH False]) (use len[unfolded stringify_obj] in simp_all)
  moreover have "foldl obj_set [] kvs = kvs" using d by (simp add: foldl_obj_set)
  ultimately show ?thesis
    unfolding stringify_obj by (simp add: parse_value_Suc_head is_ws_def ct)
qed

text \<open>A printed number is read back by one step of the parser.\<close>

lemma parse_value_show_int:
  assumes "json_end rest"
  shows "parse_value (Suc m) (show_int i @ rest) = Some (JNum i, rest)"
proof -
  obtain c r where cr: "show_int i = c # r" and c: "c = CHR ''-'' \<or> is_digit c"
    using show_int_head[of i] by (cases "show_int i") auto
  have nc: "\<not> is_ws c" "c \<noteq> CHR ''n''" "c \<noteq> CHR ''t''" "c \<noteq> CHR ''f''" "c \<noteq> CHR 0x22"
    "c \<noteq> CHR ''[''" "c \<noteq> CHR ''{''"
    using c by (auto simp: is_digit_def is_ws_def)
  have "parse_int (show_int i @ rest) = Some (i, rest)"
    using assms by (simp add: parse_int_show_int json_end_num_end)
  with nc show ?thesis by (simp add: cr parse_value_Suc_head)
qed

theorem parse_stringify:
  "json_wf v \<Longrightarrow> length (stringify v) < n \<Longrightarrow> json_end rest \<Longrightarrow>
   parse_value n (stringify v @ rest) = Some (v, rest)"
proof (induction v arbitrary: n rest)
  case JNull
  then obtain m where "n = Suc m" by (cases n) auto
  then show ?case by (simp add: parse_value_Suc_head is_ws_def)
next
  case (JBool b)
  then obtain m where "n = Suc m" by (cases n) auto
  then show ?case by (cases b) (simp_all add: parse_value_Suc_head is_ws_def)
next
  case (JNum i)
  then obtain m where n: "n = Suc m" by (cases n) auto
  with parse_value_show_int[OF JNum.prems(3)] show ?case by (simp add: n)
next
  case (JStr s)
  then obtain m where "n = Suc m" by (cases n) auto
  then show ?case by (simp add: parse_value_Suc_head is_ws_def quote_def parse_string_escape)
next
  case (JArr vs)
  then obtain m where n: "n = Suc m" by (cases n) auto
  have "parse_value (Suc m) (stringify (JArr vs) @ rest) = Some (JArr vs, rest)"
  proof (rule parse_arr_stringify)
    fix w k rest' assume "w \<in> set vs" "length (stringify w) < k" "json_end rest'"
    with JArr.IH[of w k rest'] JArr.prems(1) show "parse_value k (stringify w @ rest') = Some (w, rest')"
      by (simp add: list_all_iff)
  qed (use JArr.prems(2) n in simp)
  then show ?case by (simp add: n)
next
  case (JObj kvs)
  then obtain m where n: "n = Suc m" by (cases n) auto
  have "parse_value (Suc m) (stringify (JObj kvs) @ rest) = Some (JObj kvs, rest)"
  proof (rule parse_obj_stringify)
    fix kw k rest' assume "kw \<in> set kvs" "length (stringify (snd kw)) < k" "json_end rest'"
    with JObj.IH[of kw "snd kw" k rest'] JObj.prems(1)
    show "parse_value k (stringify (snd kw) @ rest') = Some (snd kw, rest')"
      by (cases kw) (auto simp: list_all_iff)
  qed (use JObj.prems(1,2) n in simp_all)
  then show ?case by (simp add: n)
qed

theorem json_parse_stringify: "json_wf v \<Longrightarrow> json_parse (stringify v) = Some v"
  using parse_stringify[of v "Suc (length (stringify v))" "[]"]
  by (simp add: json_parse_def json_end_def)

end
