(* ===== verification/Codec.thy ===== *)
theory Codec
  imports Json "HOL-Library.Word"
begin

text \<open>
  The codec layer, \<^verbatim>\<open>packages/core/src/lib/Codec.ts\<close>: the wire shapes of an
  event (\<open>StreamEvent\<close>, \<open>TimelineEvent\<close>), the \<open>Codec\<close> interface, the
  \<open>PassThroughCodec\<close>, and \<open>AsyncCodec.map\<close>, which lifts a codec over a payload
  transformation.  A JavaScript decoder may throw, so every \<open>tryDecode\<close> returns
  an \<open>error + 'e option\<close>: \<open>Inl\<close> an exception, \<open>Inr None\<close> the soft skip
  (\<open>undefined\<close>), \<open>Inr (Some e)\<close> a decoded event.  Promises are not modelled: an
  awaited value is the value.
\<close>

subsection \<open>Event shapes\<close>

text \<open>
  \<open>StreamEvent<F>\<close> is \<open>{id?, type, data?, meta?}\<close>; an optional field is an
  \<open>option\<close>.  \<open>TimelineEvent<F>\<close> extends it with the stream position
  (\<open>index\<close>) and the global position the store assigned.
\<close>

record 'f stream_event =
  ev_id :: "string option"
  ev_type :: string
  ev_data :: "'f option"
  ev_meta :: "'f option"

record 'f timeline_event = "'f stream_event" +
  ev_index :: version
  ev_global :: global_position

text \<open>The event a store hands back for a written event at the given positions.\<close>

definition to_timeline :: "'f stream_event \<Rightarrow> version \<Rightarrow> global_position \<Rightarrow> 'f timeline_event" where
  "to_timeline e i g =
     \<lparr>ev_id = ev_id e, ev_type = ev_type e, ev_data = ev_data e, ev_meta = ev_meta e,
      ev_index = i, ev_global = g\<rparr>"

subsection \<open>The codec interface\<close>

text \<open>\<open>Codec<E, C>\<close>, lines 8--12, generalised over the payload type as \<open>AsyncCodec<E, F, C>\<close> is.\<close>

record ('e, 'c, 'f) codec =
  try_decode :: "'f timeline_event \<Rightarrow> error + 'e option"
  encode :: "'e \<Rightarrow> 'c \<Rightarrow> 'f stream_event"

text \<open>
  \<open>AsyncCodec<E, F, C>\<close>, lines 25--28: the same two operations over payloads
  of type \<open>F\<close>; a promise of a result is the result, as calls are sequential.
\<close>

type_synonym ('e, 'f, 'c) AsyncCodec = "('e, 'c, 'f) codec"

text \<open>
  A codec round-trips when decoding what it encoded, at any position, gives the
  event back.
\<close>

definition codec_roundtrip :: "('e, 'c, 'f) codec \<Rightarrow> 'e \<Rightarrow> 'c \<Rightarrow> bool" where
  "codec_roundtrip c e ctx \<longleftrightarrow>
     (\<forall>i g. try_decode c (to_timeline (encode c e ctx) i g) = Inr (Some e))"

subsection \<open>PassThroughCodec\<close>

text \<open>
  Lines 14--23.  Decoding casts the timeline event to the typed event, so the
  typed event type is the timeline event itself.  Encoding keeps \<open>type\<close> and
  \<open>data\<close>, drops the event's \<open>id\<close> and \<open>meta\<close>, and takes the metadata from the
  context.
\<close>

definition PassThroughCodec :: "('c \<Rightarrow> 'f option) \<Rightarrow> ('f timeline_event, 'c, 'f) codec" where
  "PassThroughCodec ctx_to_meta =
     \<lparr>try_decode = (\<lambda>ev. Inr (Some ev)),
      encode = (\<lambda>ev ctx. \<lparr>ev_id = None, ev_type = ev_type ev, ev_data = ev_data ev,
                          ev_meta = ctx_to_meta ctx\<rparr>)\<rparr>"

subsection \<open>AsyncCodec.map\<close>

text \<open>
  Lines 30--47.  Decoding transforms \<open>data\<close> and \<open>meta\<close> when present (the
  payloads are arrays or objects, so JavaScript truthiness is presence), then
  hands the event with the transformed payloads to the inner codec; a throwing
  payload decoder throws, the \<open>data\<close> one first as \<open>Promise.all\<close> rejects with
  it.  Encoding runs the inner codec and transforms the payloads that are
  present.
\<close>

definition map_payload :: "('a \<Rightarrow> error + 'b) \<Rightarrow> 'a option \<Rightarrow> error + 'b option" where
  "map_payload f x = (case x of None \<Rightarrow> Inr None | Some v \<Rightarrow> (case f v of Inl err \<Rightarrow> Inl err | Inr w \<Rightarrow> Inr (Some w)))"

definition with_payloads :: "'b option \<Rightarrow> 'b option \<Rightarrow> 'a timeline_event \<Rightarrow> 'b timeline_event" where
  "with_payloads d m ev =
     \<lparr>ev_id = ev_id ev, ev_type = ev_type ev, ev_data = d, ev_meta = m,
      ev_index = ev_index ev, ev_global = ev_global ev\<rparr>"

definition map_codec ::
  "('e, 'c, 'a) codec \<Rightarrow> ('a \<Rightarrow> 'b) \<Rightarrow> ('b \<Rightarrow> error + 'a) \<Rightarrow> ('e, 'c, 'b) codec" where
  "map_codec c enc dec =
     \<lparr>try_decode = (\<lambda>ev.
        case map_payload dec (ev_data ev) of
          Inl err \<Rightarrow> Inl err
        | Inr d \<Rightarrow> (case map_payload dec (ev_meta ev) of
            Inl err \<Rightarrow> Inl err
          | Inr m \<Rightarrow> try_decode c (with_payloads d m ev))),
      encode = (\<lambda>e ctx.
        let r = encode c e ctx
        in \<lparr>ev_id = ev_id r, ev_type = ev_type r, ev_data = map_option enc (ev_data r),
            ev_meta = map_option enc (ev_meta r)\<rparr>)\<rparr>"

subsection \<open>AsyncCodec.deflate and unsafeEmpty\<close>

text \<open>
  Lines 49--74.  Payloads are JSON values; the wire payload is the pair
  \<open>[encoding, bytes]\<close>.  Encoding serialises with \<open>JSON.stringify\<close>, takes the
  bytes of the string (\<open>Buffer.from\<close>; strings are byte strings, so this is the
  identity on bytes), compresses them with \<open>deflateRaw\<close> and keeps the
  compressed form only when it is strictly shorter, tagging it \<open>1\<close>, else the raw
  form tagged \<open>0\<close>.  Decoding returns \<open>null\<close> for missing or empty bytes, parses
  the raw form when the tag is \<open>0\<close> and inflates otherwise.  The zlib functions
  are parameters: \<open>deflateRaw\<close> a function on bytes, \<open>inflateRaw\<close> (with
  \<open>Z_SYNC_FLUSH\<close>) a function that may reject its input.
\<close>

type_synonym byte = "8 word"
type_synonym bytes = "byte list"

definition buffer_from :: "string \<Rightarrow> bytes" where
  "buffer_from s = map (\<lambda>c. of_nat (of_char c)) s"

definition buffer_to_string :: "bytes \<Rightarrow> string" where
  "buffer_to_string b = map (\<lambda>x. char_of (unat x)) b"

text \<open>\<open>JSON.parse\<close>, which throws on text it does not accept.\<close>

definition JSON_parse :: "string \<Rightarrow> error + json" where
  "JSON_parse s = (case json_parse s of None \<Rightarrow> Inl JsonParseError | Some v \<Rightarrow> Inr v)"

definition deflate_encode :: "(bytes \<Rightarrow> bytes) \<Rightarrow> json \<Rightarrow> int option \<times> bytes option" where
  "deflate_encode deflate_raw x =
     (if x = JNull then (None, None)
      else let raw = buffer_from (stringify x); deflated = deflate_raw raw
           in if length deflated < length raw then (Some 1, Some deflated) else (Some 0, Some raw))"

definition deflate_decode :: "(bytes \<Rightarrow> bytes option) \<Rightarrow> int option \<times> bytes option \<Rightarrow> error + json" where
  "deflate_decode inflate_raw p =
     (case p of
        (encoding, None) \<Rightarrow> Inr JNull
      | (encoding, Some b) \<Rightarrow>
          if b = [] then Inr JNull
          else if encoding = Some 0 then JSON_parse (buffer_to_string b)
          else (case inflate_raw b of
                  None \<Rightarrow> Inl DecompressError
                | Some inflated \<Rightarrow> JSON_parse (buffer_to_string inflated)))"

definition deflate_codec ::
  "('e, 'c, json) codec \<Rightarrow> (bytes \<Rightarrow> bytes) \<Rightarrow> (bytes \<Rightarrow> bytes option) \<Rightarrow> ('e, 'c, int option \<times> bytes option) codec" where
  "deflate_codec c deflate_raw inflate_raw = map_codec c (deflate_encode deflate_raw) (deflate_decode inflate_raw)"

text \<open>\<open>unsafeEmpty\<close>: the deflate codec over the identity codec on JSON events.\<close>

definition unsafeEmpty ::
  "(bytes \<Rightarrow> bytes) \<Rightarrow> (bytes \<Rightarrow> bytes option) \<Rightarrow> (json timeline_event, 'c, int option \<times> bytes option) codec" where
  "unsafeEmpty deflate_raw inflate_raw =
     deflate_codec
       \<lparr>try_decode = (\<lambda>e. Inr (Some e)),
        encode = (\<lambda>e ctx. \<lparr>ev_id = ev_id e, ev_type = ev_type e, ev_data = ev_data e, ev_meta = ev_meta e\<rparr>)\<rparr>
       deflate_raw inflate_raw"

subsection \<open>The JSON codec and the upcast codec\<close>

text \<open>
  \<open>Codec.json\<close> and \<open>Codec.upcast\<close> are not under \<^verbatim>\<open>src/\<close>; they are modelled
  from the spec (section 4.1) and from the behaviour the repository's tests
  (\<^verbatim>\<open>packages/core/test/Codec.test.ts\<close>) fix.  The JSON codec stores payloads as
  text.  Encoding keeps \<open>id\<close> and \<open>type\<close>, serialises \<open>data\<close> when it is
  truthy, and serialises \<open>meta ?? ctxToMeta(ctx)\<close> when that is truthy.
  Decoding parses \<open>data\<close> when it is a non-empty string and returns
  \<open>{type, data}\<close>: the \<open>id\<close> and the metadata are not part of the decoded
  event (the test at lines 17--24 decodes an event with \<open>id "123"\<close> to
  \<open>{type, data}\<close>).
\<close>

fun js_truthy :: "json \<Rightarrow> bool" where
  "js_truthy JNull = False"
| "js_truthy (JBool b) = b"
| "js_truthy (JNum n) = (n \<noteq> 0)"
| "js_truthy (JStr s) = (s \<noteq> [])"
| "js_truthy (JArr vs) = True"
| "js_truthy (JObj kvs) = True"

definition json_codec :: "('c \<Rightarrow> json option) \<Rightarrow> (json stream_event, 'c, string) codec" where
  "json_codec ctx_to_meta =
     \<lparr>try_decode = (\<lambda>ev.
        case ev_data ev of
          Some s \<Rightarrow>
            if s = [] then Inr (Some \<lparr>ev_id = None, ev_type = ev_type ev, ev_data = None, ev_meta = None\<rparr>)
            else (case JSON_parse s of
                    Inl err \<Rightarrow> Inl err
                  | Inr d \<Rightarrow> Inr (Some \<lparr>ev_id = None, ev_type = ev_type ev, ev_data = Some d, ev_meta = None\<rparr>))
        | None \<Rightarrow> Inr (Some \<lparr>ev_id = None, ev_type = ev_type ev, ev_data = None, ev_meta = None\<rparr>)),
      encode = (\<lambda>ev ctx.
        let meta = (case ev_meta ev of
                      Some m \<Rightarrow> if m = JNull then ctx_to_meta ctx else Some m
                    | None \<Rightarrow> ctx_to_meta ctx)
        in \<lparr>ev_id = ev_id ev, ev_type = ev_type ev,
            ev_data = (case ev_data ev of Some d \<Rightarrow> if js_truthy d then Some (stringify d) else None | None \<Rightarrow> None),
            ev_meta = (case meta of Some m \<Rightarrow> if js_truthy m then Some (stringify m) else None | None \<Rightarrow> None)\<rparr>)\<rparr>"

text \<open>
  \<open>Codec.Upcast.body(mapping)\<close>: the validator registered for the event's type
  turns its raw payload into the typed event; an unregistered type is skipped
  (\<open>undefined\<close>), a validator that rejects the payload throws.  A validator is
  a function to \<open>option\<close>, \<open>None\<close> for "throws".
\<close>

definition upcast_body ::
  "(string \<times> (json option \<Rightarrow> 'e option)) list \<Rightarrow> json stream_event \<Rightarrow> error + 'e option" where
  "upcast_body mapping raw =
     (case map_of mapping (ev_type raw) of
        None \<Rightarrow> Inr None
      | Some parse \<Rightarrow> (case parse (ev_data raw) of
                         None \<Rightarrow> Inl (UpcastValidationError (ev_type raw))
                       | Some e \<Rightarrow> Inr (Some e)))"

text \<open>
  \<open>Codec.upcast(codec, upcast)\<close>: decode with the inner codec, then upcast what
  it decoded; encode the typed event through the inner codec, as the object it
  is at run time (\<open>shape\<close>).
\<close>

definition upcast_codec ::
  "(json stream_event, 'c, 'f) codec \<Rightarrow> (json stream_event \<Rightarrow> error + 'e option) \<Rightarrow> ('e \<Rightarrow> json stream_event)
   \<Rightarrow> ('e, 'c, 'f) codec" where
  "upcast_codec c up shape =
     \<lparr>try_decode = (\<lambda>ev. case try_decode c ev of
                           Inl err \<Rightarrow> Inl err
                         | Inr None \<Rightarrow> Inr None
                         | Inr (Some raw) \<Rightarrow> up raw),
      encode = (\<lambda>e ctx. encode c (shape e) ctx)\<rparr>"

text \<open>
  The contract of the zlib pair the deflate codec is built on: compressing gives
  a non-empty result and inflating it gives the input back.
\<close>

definition zlib_contract :: "(bytes \<Rightarrow> bytes) \<Rightarrow> (bytes \<Rightarrow> bytes option) \<Rightarrow> bool" where
  "zlib_contract deflate_raw inflate_raw \<longleftrightarrow> (\<forall>b. deflate_raw b \<noteq> [] \<and> inflate_raw (deflate_raw b) = Some b)"

subsection \<open>Lemmas\<close>

lemma to_timeline_sel [simp]:
  "ev_id (to_timeline e i g) = ev_id e" "ev_type (to_timeline e i g) = ev_type e"
  "ev_data (to_timeline e i g) = ev_data e" "ev_meta (to_timeline e i g) = ev_meta e"
  "ev_index (to_timeline e i g) = i" "ev_global (to_timeline e i g) = g"
  by (simp_all add: to_timeline_def)

lemma map_payload_enc:
  "(\<And>v. dec (enc v) = Inr v) \<Longrightarrow> map_payload dec (map_option enc x) = Inr x"
  by (cases x) (simp_all add: map_payload_def)

lemma with_payloads_to_timeline:
  "with_payloads (ev_data e) (ev_meta e)
     (to_timeline \<lparr>ev_id = ev_id e, ev_type = ev_type e, ev_data = d, ev_meta = m\<rparr> i g)
   = to_timeline e i g"
  by (simp add: with_payloads_def to_timeline_def)

lemma map_payload_enc_on:
  "(\<And>v. x = Some v \<Longrightarrow> dec (enc v) = Inr v) \<Longrightarrow> map_payload dec (map_option enc x) = Inr x"
  by (cases x) (simp_all add: map_payload_def)

lemma map_codec_roundtrip:
  assumes rt: "codec_roundtrip c e ctx"
    and d: "\<And>v. ev_data (encode c e ctx) = Some v \<Longrightarrow> dec (enc v) = Inr v"
    and m: "\<And>v. ev_meta (encode c e ctx) = Some v \<Longrightarrow> dec (enc v) = Inr v"
  shows "codec_roundtrip (map_codec c enc dec) e ctx"
  unfolding codec_roundtrip_def
proof (intro allI)
  fix i g
  let ?r = "encode c e ctx"
  have "map_payload dec (map_option enc (ev_data ?r)) = Inr (ev_data ?r)"
    and "map_payload dec (map_option enc (ev_meta ?r)) = Inr (ev_meta ?r)"
    using d m by (simp_all add: map_payload_enc_on)
  with rt show "try_decode (map_codec c enc dec) (to_timeline (encode (map_codec c enc dec) e ctx) i g) = Inr (Some e)"
    by (simp add: map_codec_def Let_def with_payloads_to_timeline codec_roundtrip_def)
qed

lemma buffer_roundtrip [simp]: "buffer_to_string (buffer_from s) = s"
proof -
  have "(\<lambda>x. char_of (unat x)) \<circ> (\<lambda>c. of_nat (of_char c) :: byte) = id"
    by (simp add: fun_eq_iff unat_of_nat)
  then show ?thesis by (simp add: buffer_to_string_def buffer_from_def)
qed

lemma buffer_from_Nil [simp]: "buffer_from s = [] \<longleftrightarrow> s = []"
  by (simp add: buffer_from_def)

lemma JSON_parse_stringify: "json_wf v \<Longrightarrow> JSON_parse (stringify v) = Inr v"
  by (simp add: JSON_parse_def json_parse_stringify)

lemma stringify_ne [simp]: "stringify v \<noteq> []"
  using stringify_head[of v] by auto

lemma deflate_decode_encode:
  assumes z: "zlib_contract deflate_raw inflate_raw" and wf: "json_wf x"
  shows "deflate_decode inflate_raw (deflate_encode deflate_raw x) = Inr x"
proof (cases "x = JNull")
  case True
  then show ?thesis by (simp add: deflate_encode_def deflate_decode_def)
next
  case False
  let ?raw = "buffer_from (stringify x)"
  have ne: "deflate_raw ?raw \<noteq> []" and inv: "inflate_raw (deflate_raw ?raw) = Some ?raw"
    using z by (simp_all add: zlib_contract_def)
  show ?thesis
    using False ne inv JSON_parse_stringify[OF wf]
    by (simp add: deflate_encode_def deflate_decode_def Let_def)
qed

text \<open>
  C7.  \<open>AsyncCodec.deflate\<close> round trip: over a codec that round-trips an
  event, with a zlib pair that inverts itself, decoding the encoded event
  gives the event back, whichever of the raw and compressed forms was stored.
\<close>

theorem deflate_codec_roundtrip:
  assumes rt: "codec_roundtrip c e ctx" and z: "zlib_contract deflate_raw inflate_raw"
    and wf: "\<And>v. ev_data (encode c e ctx) = Some v \<Longrightarrow> json_wf v"
            "\<And>v. ev_meta (encode c e ctx) = Some v \<Longrightarrow> json_wf v"
  shows "codec_roundtrip (deflate_codec c deflate_raw inflate_raw) e ctx"
  unfolding deflate_codec_def
  by (rule map_codec_roundtrip[OF rt]) (simp_all add: deflate_decode_encode[OF z] wf)

theorem deflate_codec_roundtrip_witness:
  "codec_roundtrip
     (deflate_codec \<lparr>try_decode = (\<lambda>ev. Inr (Some (ev_type ev))),
                     encode = (\<lambda>t (ctx :: unit). \<lparr>ev_id = None, ev_type = t, ev_data = Some (JObj [(''n'', JNum 1)]), ev_meta = None\<rparr>)\<rparr>
        (Cons 0) (\<lambda>b. case b of [] \<Rightarrow> None | x # r \<Rightarrow> Some r))
     ''Evt'' ()"
  by (rule deflate_codec_roundtrip) (simp_all add: codec_roundtrip_def zlib_contract_def)

lemma json_codec_encode_data:
  "ev_data (encode (json_codec f) e ctx) =
     (case ev_data e of Some d \<Rightarrow> if js_truthy d then Some (stringify d) else None | None \<Rightarrow> None)"
  by (simp add: json_codec_def Let_def)

theorem json_codec_roundtrip:
  assumes "\<And>d. ev_data e = Some d \<Longrightarrow> json_wf d \<and> js_truthy d"
  shows "try_decode (json_codec f) (to_timeline (encode (json_codec f) e ctx) i g) =
           Inr (Some \<lparr>ev_id = None, ev_type = ev_type e, ev_data = ev_data e, ev_meta = None\<rparr>)"
  using assms
  by (cases "ev_data e") (auto simp: json_codec_def Let_def JSON_parse_stringify)

lemma json_codec_decoded_shape:
  "try_decode (json_codec f) ev = Inr (Some r) \<Longrightarrow> ev_id r = None \<and> ev_meta r = None \<and> ev_type r = ev_type ev"
  by (auto simp: json_codec_def split: option.splits if_splits sum.splits)

lemma upcast_body_unregistered:
  "map_of mapping (ev_type raw) = None \<Longrightarrow> upcast_body mapping raw = Inr None"
  by (simp add: upcast_body_def)

lemma upcast_body_invalid:
  "map_of mapping (ev_type raw) = Some p \<Longrightarrow> p (ev_data raw) = None \<Longrightarrow>
   upcast_body mapping raw = Inl (UpcastValidationError (ev_type raw))"
  by (simp add: upcast_body_def)

lemma upcast_body_valid:
  "map_of mapping (ev_type raw) = Some p \<Longrightarrow> p (ev_data raw) = Some e \<Longrightarrow>
   upcast_body mapping raw = Inr (Some e)"
  by (simp add: upcast_body_def)

lemma upcast_codec_roundtrip:
  assumes "\<And>i g. try_decode c (to_timeline (encode c (shape e) ctx) i g) = Inr (Some raw)"
    and "up raw = Inr (Some e)"
  shows "codec_roundtrip (upcast_codec c up shape) e ctx"
  using assms by (simp add: codec_roundtrip_def upcast_codec_def)


subsection \<open>Properties of the compression codec\<close>

text \<open>
  C8.  Smallest wins: the deflate codec stores a non-null payload as its
  compressed bytes, tagged 1, exactly when these are strictly shorter than the
  JSON text, and as the raw bytes of the text, tagged 0, otherwise; the stored
  bytes are never longer than the text.
\<close>

theorem deflate_encode_smallest:
  assumes "x \<noteq> JNull"
  shows "\<exists>t b. deflate_encode deflate_raw x = (Some t, Some b) \<and>
           length b = min (length (deflate_raw (buffer_from (stringify x)))) (length (stringify x)) \<and>
           (t = 1 \<longleftrightarrow> length (deflate_raw (buffer_from (stringify x))) < length (stringify x)) \<and>
           (t \<noteq> 1 \<longrightarrow> t = 0 \<and> b = buffer_from (stringify x))"
  using assms by (simp add: deflate_encode_def Let_def buffer_from_def)

theorem deflate_encode_smallest_witness:
  "JNum 42 \<noteq> JNull \<and>
   (\<exists>t b. deflate_encode (Cons 0) (JNum 42) = (Some t, Some b) \<and>
           length b = min (length ((Cons 0) (buffer_from (stringify (JNum 42))))) (length (stringify (JNum 42))) \<and>
           (t = 1 \<longleftrightarrow> length ((Cons 0) (buffer_from (stringify (JNum 42)))) < length (stringify (JNum 42))) \<and>
           (t \<noteq> 1 \<longrightarrow> t = 0 \<and> b = buffer_from (stringify (JNum 42))))"
  using deflate_encode_smallest[of "JNum 42" "Cons 0"] by simp

text \<open>
  C9.  A compressed payload (any tag but 0) whose bytes \<open>inflateRaw\<close> rejects
  makes decoding fail with the decompression error instead of yielding an
  event.
\<close>

theorem deflate_decode_corrupt:
  assumes "ev_data ev = Some (t, Some b)" and "b \<noteq> []" and "t \<noteq> Some 0" and "inflate_raw b = None"
  shows "try_decode (deflate_codec c deflate_raw inflate_raw) ev = Inl DecompressError"
  using assms by (simp add: deflate_codec_def map_codec_def map_payload_def deflate_decode_def)

theorem deflate_decode_corrupt_witness:
  "try_decode (deflate_codec (PassThroughCodec (\<lambda>_ :: unit. None)) (Cons 0) (\<lambda>b. None))
     \<lparr>ev_id = None, ev_type = ''Evt'', ev_data = Some (Some 1, Some [7]), ev_meta = None, ev_index = 0, ev_global = 1\<rparr>
   = Inl DecompressError"
  by (rule deflate_decode_corrupt[where t = "Some 1" and b = "[7]"]) simp_all

text \<open>
  C10.  \<open>unsafeEmpty\<close> round trip: encoding a JSON event and decoding it at
  any position gives back its id, type, data and metadata.
\<close>

theorem unsafeEmpty_roundtrip:
  assumes z: "zlib_contract deflate_raw inflate_raw"
    and wf: "\<And>v. ev_data e = Some v \<Longrightarrow> json_wf v" "\<And>v. ev_meta e = Some v \<Longrightarrow> json_wf v"
  shows "try_decode (unsafeEmpty deflate_raw inflate_raw) (to_timeline (encode (unsafeEmpty deflate_raw inflate_raw) e ctx) i g) =
           Inr (Some (to_timeline \<lparr>ev_id = ev_id e, ev_type = ev_type e, ev_data = ev_data e, ev_meta = ev_meta e\<rparr> i g))"
proof -
  have "map_payload (deflate_decode inflate_raw) (map_option (deflate_encode deflate_raw) (ev_data e)) = Inr (ev_data e)"
    and "map_payload (deflate_decode inflate_raw) (map_option (deflate_encode deflate_raw) (ev_meta e)) = Inr (ev_meta e)"
    using wf by (simp_all add: map_payload_enc_on deflate_decode_encode[OF z])
  then show ?thesis
    by (simp add: unsafeEmpty_def deflate_codec_def map_codec_def with_payloads_def to_timeline_def)
qed

theorem unsafeEmpty_roundtrip_witness:
  "try_decode (unsafeEmpty (Cons 0) (\<lambda>b. case b of [] \<Rightarrow> None | x # r \<Rightarrow> Some r))
     (to_timeline (encode (unsafeEmpty (Cons 0) (\<lambda>b. case b of [] \<Rightarrow> None | x # r \<Rightarrow> Some r))
        \<lparr>ev_id = Some ''1'', ev_type = ''Evt'', ev_data = Some (JArr [JBool True]), ev_meta = None, ev_index = 3, ev_global = 4\<rparr> ()) 0 1) =
   Inr (Some (to_timeline \<lparr>ev_id = Some ''1'', ev_type = ''Evt'', ev_data = Some (JArr [JBool True]), ev_meta = None\<rparr> 0 1))"
  using unsafeEmpty_roundtrip[where deflate_raw = "Cons 0" and inflate_raw = "\<lambda>b. case b of [] \<Rightarrow> None | x # r \<Rightarrow> Some r"
      and e = "\<lparr>ev_id = Some ''1'', ev_type = ''Evt'', ev_data = Some (JArr [JBool True]), ev_meta = None, ev_index = 3, ev_global = 4\<rparr>"
      and ctx = "()" and i = 0 and g = 1]
  by (simp add: zlib_contract_def)

end
