(* ===== verification/Store.thy ===== *)
theory Store
  imports Codec
begin

text \<open>
  The storage side of the engine (spec sections 3, 4.2, 4.3 and 6; the code of
  the stores is not under \<^verbatim>\<open>src/\<close>, so this theory follows the spec).

  \<^item> The underlying append-only store is one global log of messages in global
    position order; each message is a timeline event of a stream.  Writing is
    the atomic compare-and-append \<open>writeMessages(stream, events, expected)\<close>.
  \<^item> The cache maps a stream to the last observed \<open>(version, state)\<close>.
  \<^item> A category binds a codec, a fold and an initial state; \<open>load\<close> and
    \<open>append\<close> are the Category Store's two operations.  A load reads only the
    events after the cached version and folds them onto the cached state.

  The invariants are \<open>store_wf\<close> (positions are the ones the store assigns)
  and \<open>cache_coherent\<close> (a cached state is the fold of the stream's prefix up to
  the cached version).  The main result, \<open>load_fresh\<close>, is the refinement of
  the cached, incremental load by the full replay of the stream.
\<close>

subsection \<open>Streams and the message store\<close>

datatype stream_name = StreamName (sn_category: string) (sn_id: string)

record 'f store =
  st_log :: "(stream_name \<times> 'f timeline_event) list"
  st_sql_condition :: bool

definition stream_messages :: "'f store \<Rightarrow> stream_name \<Rightarrow> 'f timeline_event list" where
  "stream_messages st sn = map snd (filter (\<lambda>m. fst m = sn) (st_log st))"

definition stream_version :: "'f store \<Rightarrow> stream_name \<Rightarrow> version" where
  "stream_version st sn = int (length (stream_messages st sn)) - 1"

text \<open>Positions the store assigns to a batch: consecutive stream and global positions.\<close>

fun stamp :: "version \<Rightarrow> global_position \<Rightarrow> 'f stream_event list \<Rightarrow> 'f timeline_event list" where
  "stamp i g [] = []"
| "stamp i g (e # es) = to_timeline e i g # stamp (i + 1) (g + 1) es"

text \<open>
  \<open>writeMessages(stream, events, expectedVersion)\<close>: a version conflict when
  the stream's version is not the expected one, otherwise the events are
  appended with the next positions and the new version is returned.  Global
  positions start at 1.
\<close>

definition write_messages ::
  "'f store \<Rightarrow> stream_name \<Rightarrow> 'f stream_event list \<Rightarrow> version \<Rightarrow> error + version \<times> 'f store" where
  "write_messages st sn evs expected =
     (let v = stream_version st sn
      in if expected \<noteq> v then Inl (VersionConflict expected v)
         else Inr (v + int (length evs),
                   st\<lparr>st_log := st_log st @
                        map (Pair sn) (stamp (v + 1) (int (length (st_log st)) + 1) evs)\<rparr>))"

text \<open>\<open>readStreamMessages(stream, fromVersion)\<close>: the events after a version, in order.\<close>

definition read_stream :: "'f store \<Rightarrow> stream_name \<Rightarrow> version \<Rightarrow> 'f timeline_event list" where
  "read_stream st sn v = filter (\<lambda>e. v < ev_index e) (stream_messages st sn)"

definition store_wf :: "'f store \<Rightarrow> bool" where
  "store_wf st \<longleftrightarrow>
     map (ev_global \<circ> snd) (st_log st) = map (\<lambda>k. int k + 1) [0..<length (st_log st)] \<and>
     (\<forall>sn \<in> fst ` set (st_log st).
        map ev_index (stream_messages st sn) = map int [0..<length (stream_messages st sn)])"

subsection \<open>Cache and category\<close>

type_synonym 's cache = "stream_name \<rightharpoonup> version \<times> 's"

record ('e, 's, 'c, 'f) category =
  cat_name :: string
  cat_codec :: "('e, 'c, 'f) codec"
  cat_fold :: "'s \<Rightarrow> 'e list \<Rightarrow> 's"
  cat_initial :: 's

text \<open>
  The freshness options of a load.  \<open>RequireLeader\<close> is \<open>RequireLoad\<close>
  (spec 4.3); \<open>AnyCachedValue\<close> (used by \<^verbatim>\<open>ContactPreferences.ts\<close>) and
  \<open>AllowStale\<close> both return a cached entry of any age.
\<close>

datatype load_option = RequireLoad | RequireLeader | AllowStale | AnyCachedValue

fun allows_stale :: "load_option \<Rightarrow> bool" where
  "allows_stale RequireLoad = False"
| "allows_stale RequireLeader = False"
| "allows_stale AllowStale = True"
| "allows_stale AnyCachedValue = True"

text \<open>
  Fetch the events after a known \<open>(version, state)\<close>, decode them (an unknown
  type is skipped, a throwing decoder aborts the load), fold them onto the state
  and store the result in the cache.
\<close>

definition reload ::
  "('e, 's, 'c, 'f) category \<Rightarrow> 'f store \<Rightarrow> 's cache \<Rightarrow> stream_name \<Rightarrow> version \<times> 's
   \<Rightarrow> error + (version \<times> 's) \<times> 's cache" where
  "reload cat st c sn vs =
     (let evs = read_stream st sn (fst vs)
      in case map_filter_err (try_decode (cat_codec cat)) evs of
           Inl err \<Rightarrow> Inl err
         | Inr es \<Rightarrow>
             let v = (if evs = [] then fst vs else ev_index (last evs));
                 s = cat_fold cat (snd vs) es
             in Inr ((v, s), c(sn \<mapsto> (v, s))))"

definition load ::
  "('e, 's, 'c, 'f) category \<Rightarrow> 'f store \<Rightarrow> 's cache \<Rightarrow> stream_name \<Rightarrow> load_option
   \<Rightarrow> error + (version \<times> 's) \<times> 's cache" where
  "load cat st c sn opt =
     (case c sn of
        Some vs \<Rightarrow> if allows_stale opt then Inr (vs, c) else reload cat st c sn vs
      | None \<Rightarrow> reload cat st c sn (-1, cat_initial cat))"

text \<open>
  Append decided events at the version they were decided on; on success the
  cache holds the new version and the fold of the events onto the state.
\<close>

definition append ::
  "('e, 's, 'c, 'f) category \<Rightarrow> 'f store \<Rightarrow> 's cache \<Rightarrow> stream_name \<Rightarrow> 'c \<Rightarrow> version \<times> 's
   \<Rightarrow> 'e list \<Rightarrow> error + (version \<times> 's) \<times> 'f store \<times> 's cache" where
  "append cat st c sn ctx vs evs =
     (case write_messages st sn (map (\<lambda>e. encode (cat_codec cat) e ctx) evs) (fst vs) of
        Inl err \<Rightarrow> Inl err
      | Inr (v', st') \<Rightarrow>
          let s' = cat_fold cat (snd vs) evs in Inr ((v', s'), st', c(sn \<mapsto> (v', s'))))"

text \<open>The abstract state of a stream: the fold of its decoded events up to a version.\<close>

definition stream_state :: "('e, 's, 'c, 'f) category \<Rightarrow> 'f store \<Rightarrow> stream_name \<Rightarrow> version \<Rightarrow> error + 's" where
  "stream_state cat st sn v =
     (case map_filter_err (try_decode (cat_codec cat))
             (filter (\<lambda>e. ev_index e \<le> v) (stream_messages st sn)) of
        Inl err \<Rightarrow> Inl err
      | Inr es \<Rightarrow> Inr (cat_fold cat (cat_initial cat) es))"

definition cache_coherent :: "('e, 's, 'c, 'f) category \<Rightarrow> 'f store \<Rightarrow> 's cache \<Rightarrow> bool" where
  "cache_coherent cat st c \<longleftrightarrow>
     (\<forall>sn \<in> dom c. case c sn of
        None \<Rightarrow> True
      | Some (v, s) \<Rightarrow> -1 \<le> v \<and> v \<le> stream_version st sn \<and> stream_state cat st sn v = Inr s)"

text \<open>The operations of the store, as \<open>simp\<close> evaluates them on a concrete run.\<close>

declare stream_messages_def [model_simps] stream_version_def [model_simps] write_messages_def [model_simps]
  read_stream_def [model_simps] reload_def [model_simps] load_def [model_simps] append_def [model_simps]

subsection \<open>Lemmas: positions, writes, loads and appends\<close>

lemma stamp_length [simp]: "length (stamp i g es) = length es"
  by (induction es arbitrary: i g) auto

lemma stamp_index: "map ev_index (stamp i g es) = map (\<lambda>k. i + int k) [0..<length es]"
proof (induction es arbitrary: i g)
  case Nil
  then show ?case by simp
next
  case (Cons e es)
  then show ?case by (simp only: length_Cons map_upt_Suc) (simp add: algebra_simps)
qed

lemma stamp_global: "map ev_global (stamp i g es) = map (\<lambda>k. g + int k) [0..<length es]"
proof (induction es arbitrary: i g)
  case Nil
  then show ?case by simp
next
  case (Cons e es)
  then show ?case by (simp only: length_Cons map_upt_Suc) (simp add: algebra_simps)
qed

lemma stamp_decode:
  "(\<And>e. e \<in> set evs \<Longrightarrow> codec_roundtrip c e ctx) \<Longrightarrow>
   map_filter_err (try_decode c) (stamp i g (map (\<lambda>e. encode c e ctx) evs)) = Inr evs"
  by (induction evs arbitrary: i g) (auto simp: codec_roundtrip_def)

lemma stream_messages_log_append:
  "stream_messages (st\<lparr>st_log := st_log st @ map (Pair sn) xs\<rparr>) sn' =
   stream_messages st sn' @ (if sn' = sn then xs else [])"
  by (auto simp: stream_messages_def filter_map o_def)

lemma stream_messages_index:
  assumes wf: "store_wf st"
  shows "map ev_index (stream_messages st sn) = map int [0..<length (stream_messages st sn)]"
proof (cases "sn \<in> fst ` set (st_log st)")
  case True
  with wf show ?thesis unfolding store_wf_def by blast
next
  case False
  then have "stream_messages st sn = []"
    by (force simp: stream_messages_def filter_empty_conv)
  then show ?thesis by simp
qed

lemma write_messages_Inr:
  "write_messages st sn evs e = Inr (v', st') \<longleftrightarrow>
     e = stream_version st sn \<and> v' = e + int (length evs) \<and>
     st' = st\<lparr>st_log := st_log st @ map (Pair sn) (stamp (e + 1) (int (length (st_log st)) + 1) evs)\<rparr>"
  by (auto simp: write_messages_def Let_def)

lemma write_messages_Inl:
  "write_messages st sn evs e = Inl err \<longleftrightarrow>
     e \<noteq> stream_version st sn \<and> err = VersionConflict e (stream_version st sn)"
  by (auto simp: write_messages_def Let_def)

lemma store_wf_write:
  assumes wf: "store_wf st" and w: "write_messages st sn evs e = Inr (v', st')"
  shows "store_wf st'"
proof -
  let ?n = "length (stream_messages st sn)"
  let ?xs = "stamp (e + 1) (int (length (st_log st)) + 1) evs"
  have e: "e + 1 = int ?n" and st': "st' = st\<lparr>st_log := st_log st @ map (Pair sn) ?xs\<rparr>"
    using w by (auto simp: write_messages_Inr stream_version_def)
  have glob: "map (ev_global \<circ> snd) (st_log st') = map (\<lambda>k. int k + 1) [0..<length (st_log st')]"
    using wf upt_shift_int[where n = "length (st_log st)" and b = 1 and m = "length evs"]
    by (simp add: st' store_wf_def stamp_global o_def add.commute)
  have "map ev_index (stream_messages st' sn') = map int [0..<length (stream_messages st' sn')]" for sn'
  proof (cases "sn' = sn")
    case True
    show ?thesis
      using stream_messages_index[OF wf, of sn] upt_shift_int[where n = ?n and b = 0 and m = "length evs"] e
      by (simp add: st' stream_messages_log_append True stamp_index)
  next
    case False
    then show ?thesis
      using stream_messages_index[OF wf, of sn'] by (simp add: st' stream_messages_log_append)
  qed
  with glob show ?thesis by (simp add: store_wf_def)
qed

lemma stream_split:
  assumes wf: "store_wf st"
  shows "filter (\<lambda>e. ev_index e \<le> v) (stream_messages st sn) = take (nat (v + 1)) (stream_messages st sn)"
    and "read_stream st sn v = drop (nat (v + 1)) (stream_messages st sn)"
proof -
  have idx: "map ev_index (stream_messages st sn) = map (\<lambda>k. 0 + int k) [0..<length (stream_messages st sn)]"
    using stream_messages_index[OF wf] by simp
  show "filter (\<lambda>e. ev_index e \<le> v) (stream_messages st sn) = take (nat (v + 1)) (stream_messages st sn)"
    using filter_index_le_take[OF idx] by simp
  show "read_stream st sn v = drop (nat (v + 1)) (stream_messages st sn)"
    using filter_index_gt_drop[OF idx] by (simp add: read_stream_def)
qed

lemma stream_last_index:
  assumes wf: "store_wf st" and ne: "stream_messages st sn \<noteq> []"
  shows "ev_index (last (stream_messages st sn)) = stream_version st sn"
proof -
  have "ev_index (last (stream_messages st sn)) = last (map ev_index (stream_messages st sn))"
    using ne by (simp add: last_map)
  also have "\<dots> = int (length (stream_messages st sn) - 1)"
    using ne by (simp add: stream_messages_index[OF wf] last_map)
  finally show ?thesis
    using ne by (simp add: stream_version_def of_nat_diff Suc_le_eq)
qed

lemma filter_upto_version:
  "store_wf st \<Longrightarrow>
   filter (\<lambda>e. ev_index e \<le> stream_version st sn) (stream_messages st sn) = stream_messages st sn"
  using stream_split(1)[of st "stream_version st sn" sn] by (simp add: stream_version_def)

lemma stream_state_version:
  "store_wf st \<Longrightarrow>
   stream_state cat st sn (stream_version st sn) =
     (case map_filter_err (try_decode (cat_codec cat)) (stream_messages st sn) of
        Inl err \<Rightarrow> Inl err | Inr es \<Rightarrow> Inr (cat_fold cat (cat_initial cat) es))"
  unfolding stream_state_def by (simp only: filter_upto_version)

lemma reload_fresh:
  assumes wf: "store_wf st"
    and lo: "-1 \<le> v0" and hi: "v0 \<le> stream_version st sn"
    and pre: "map_filter_err (try_decode (cat_codec cat))
                (filter (\<lambda>e. ev_index e \<le> v0) (stream_messages st sn)) = Inr es0"
    and s0: "\<And>es. cat_fold cat s0 es = cat_fold cat (cat_initial cat) (es0 @ es)"
  shows "reload cat st c sn (v0, s0) =
    (case stream_state cat st sn (stream_version st sn) of
       Inl err \<Rightarrow> Inl err
     | Inr s \<Rightarrow> Inr ((stream_version st sn, s), c(sn \<mapsto> (stream_version st sn, s))))"
proof -
  let ?ms = "stream_messages st sn" and ?k = "nat (v0 + 1)" and ?V = "stream_version st sn"
  let ?dec = "map_filter_err (try_decode (cat_codec cat))"
  have split: "?ms = take ?k ?ms @ read_stream st sn v0"
    by (simp add: stream_split(2)[OF wf])
  have ver: "(if read_stream st sn v0 = [] then v0 else ev_index (last (read_stream st sn v0))) = ?V"
  proof (cases "read_stream st sn v0 = []")
    case True
    then have "length ?ms \<le> ?k" by (simp add: stream_split(2)[OF wf])
    with hi lo True show ?thesis by (simp add: stream_version_def)
  next
    case False
    then have "last (read_stream st sn v0) = last ?ms"
      by (simp add: stream_split(2)[OF wf])
    moreover have "?ms \<noteq> []" using False by (auto simp: read_stream_def)
    ultimately show ?thesis using False stream_last_index[OF wf] by simp
  qed
  have "?dec ?ms = (case ?dec (read_stream st sn v0) of Inl err \<Rightarrow> Inl err | Inr es \<Rightarrow> Inr (es0 @ es))"
    using pre by (subst split) (simp add: map_filter_err_append stream_split(1)[OF wf] split: sum.splits)
  then show ?thesis
    unfolding reload_def Let_def fst_conv snd_conv ver stream_state_version[OF wf]
    using s0 by (simp split: sum.splits)
qed

lemma cache_coherent_entry:
  "cache_coherent cat st c \<Longrightarrow> c sn = Some (v, s) \<Longrightarrow>
   -1 \<le> v \<and> v \<le> stream_version st sn \<and> stream_state cat st sn v = Inr s"
  unfolding cache_coherent_def by (drule bspec[of _ _ sn]) auto

lemma cache_coherent_upd:
  "cache_coherent cat st c \<Longrightarrow> -1 \<le> v \<Longrightarrow> v \<le> stream_version st sn \<Longrightarrow>
   stream_state cat st sn v = Inr s \<Longrightarrow> cache_coherent cat st (c(sn \<mapsto> (v, s)))"
  unfolding cache_coherent_def by auto

theorem load_fresh:
  assumes wf: "store_wf st" and coh: "cache_coherent cat st c" and comp: "composable (cat_fold cat)"
    and fresh: "\<not> allows_stale opt \<or> c sn = None"
  shows "load cat st c sn opt =
    (case stream_state cat st sn (stream_version st sn) of
       Inl err \<Rightarrow> Inl err
     | Inr s \<Rightarrow> Inr ((stream_version st sn, s), c(sn \<mapsto> (stream_version st sn, s))))"
proof (cases "c sn")
  case None
  have "filter (\<lambda>e. ev_index e \<le> -1) (stream_messages st sn) = []"
    by (simp add: stream_split(1)[OF wf])
  then have pre: "map_filter_err (try_decode (cat_codec cat))
      (filter (\<lambda>e. ev_index e \<le> -1) (stream_messages st sn)) = Inr []" by simp
  have hi: "-1 \<le> stream_version st sn" by (simp add: stream_version_def)
  show ?thesis
    using reload_fresh[OF wf _ hi pre, of "cat_initial cat" c] None by (simp add: load_def)
next
  case (Some vs)
  obtain v0 s0 where vs: "vs = (v0, s0)" by (cases vs)
  from cache_coherent_entry[OF coh Some[unfolded vs]]
  have lo: "-1 \<le> v0" and hi: "v0 \<le> stream_version st sn" and st0: "stream_state cat st sn v0 = Inr s0"
    by auto
  from st0 obtain es0 where
    pre: "map_filter_err (try_decode (cat_codec cat))
            (filter (\<lambda>e. ev_index e \<le> v0) (stream_messages st sn)) = Inr es0"
    and s0: "s0 = cat_fold cat (cat_initial cat) es0"
    by (auto simp: stream_state_def split: sum.splits)
  have "\<And>es. cat_fold cat s0 es = cat_fold cat (cat_initial cat) (es0 @ es)"
    using comp s0 by (simp add: composableD)
  from reload_fresh[OF wf lo hi pre this, of c] Some vs fresh show ?thesis
    by (simp add: load_def)
qed

lemma write_messages_streams:
  assumes "write_messages st sn evs e = Inr (v', st')"
  shows "stream_messages st' sn' =
           stream_messages st sn' @ (if sn' = sn then stamp (e + 1) (int (length (st_log st)) + 1) evs else [])"
    and "stream_version st' sn' = stream_version st sn' + (if sn' = sn then int (length evs) else 0)"
  using assms by (auto simp: write_messages_Inr stream_messages_log_append stream_version_def)

lemma append_Inl:
  "append cat st c sn ctx vs evs = Inl err \<longleftrightarrow>
     fst vs \<noteq> stream_version st sn \<and> err = VersionConflict (fst vs) (stream_version st sn)"
  unfolding append_def by (auto simp: write_messages_def Let_def)

lemma append_Inr:
  "append cat st c sn ctx vs evs = Inr (vs', st', c') \<longleftrightarrow>
     (\<exists>v'. write_messages st sn (map (\<lambda>e. encode (cat_codec cat) e ctx) evs) (fst vs) = Inr (v', st') \<and>
        vs' = (v', cat_fold cat (snd vs) evs) \<and> c' = c(sn \<mapsto> vs'))"
  by (auto simp: append_def Let_def split: sum.splits)

lemma stream_state_other:
  "write_messages st sn evs e = Inr (v', st') \<Longrightarrow> sn' \<noteq> sn \<Longrightarrow>
   stream_state cat st' sn' v = stream_state cat st sn' v"
  by (simp add: stream_state_def write_messages_streams(1))

theorem append_coherent:
  assumes wf: "store_wf st" and coh: "cache_coherent cat st c" and comp: "composable (cat_fold cat)"
    and rt: "\<And>e. e \<in> set evs \<Longrightarrow> codec_roundtrip (cat_codec cat) e ctx"
    and tok: "stream_state cat st sn (fst vs) = Inr (snd vs)"
    and ok: "append cat st c sn ctx vs evs = Inr (vs', st', c')"
  shows "store_wf st' \<and> cache_coherent cat st' c' \<and> fst vs' = stream_version st' sn"
proof -
  let ?enc = "map (\<lambda>e. encode (cat_codec cat) e ctx) evs"
  let ?dec = "map_filter_err (try_decode (cat_codec cat))"
  from ok obtain v' where w: "write_messages st sn ?enc (fst vs) = Inr (v', st')"
    and vs': "vs' = (v', cat_fold cat (snd vs) evs)" and c': "c' = c(sn \<mapsto> vs')"
    by (auto simp: append_Inr)
  have e: "fst vs = stream_version st sn" and v': "v' = fst vs + int (length evs)"
    using w by (auto simp: write_messages_Inr)
  have wf': "store_wf st'" by (rule store_wf_write[OF wf w])
  have ver': "stream_version st' sn = v'"
    using write_messages_streams(2)[OF w, of sn] e v' by simp
  from tok e obtain es where all: "?dec (stream_messages st sn) = Inr es"
    and s: "snd vs = cat_fold cat (cat_initial cat) es"
    by (auto simp: stream_state_version[OF wf] split: sum.splits)
  have "?dec (stream_messages st' sn) = Inr (es @ evs)"
    using all stamp_decode[OF rt] by (simp add: write_messages_streams(1)[OF w] map_filter_err_append)
  then have st_new: "stream_state cat st' sn v' = Inr (cat_fold cat (snd vs) evs)"
    using stream_state_version[OF wf', of cat sn] comp s ver' by (simp add: composableD)
  have lo: "-1 \<le> v'"
    using e v' by (simp add: stream_version_def)
  have "cache_coherent cat st' c'"
    unfolding cache_coherent_def
  proof
    fix sn' assume dom: "sn' \<in> dom c'"
    show "case c' sn' of None \<Rightarrow> True
          | Some (v, s) \<Rightarrow> -1 \<le> v \<and> v \<le> stream_version st' sn' \<and> stream_state cat st' sn' v = Inr s"
    proof (cases "sn' = sn")
      case True
      then show ?thesis using st_new lo ver' by (simp add: c' vs')
    next
      case False
      with dom have cs: "c' sn' = c sn'" and "sn' \<in> dom c" by (simp_all add: c')
      then obtain v s where cv: "c sn' = Some (v, s)" by auto
      from cache_coherent_entry[OF coh cv] show ?thesis
        using cs cv False write_messages_streams(2)[OF w, of sn'] stream_state_other[OF w False, of cat v] by simp
    qed
  qed
  with wf' ver' vs' show ?thesis by simp
qed

lemma load_coherent:
  assumes wf: "store_wf st" and coh: "cache_coherent cat st c" and comp: "composable (cat_fold cat)"
    and ld: "load cat st c sn opt = Inr (vs, c')"
  shows "cache_coherent cat st c' \<and> stream_state cat st sn (fst vs) = Inr (snd vs) \<and>
         -1 \<le> fst vs \<and> fst vs \<le> stream_version st sn"
proof (cases "allows_stale opt \<and> c sn \<noteq> None")
  case True
  then obtain v s where cv: "c sn = Some (v, s)" by auto
  with True ld have "vs = (v, s)" "c' = c" by (auto simp: load_def)
  with cache_coherent_entry[OF coh cv] coh show ?thesis by simp
next
  case False
  then have fresh: "\<not> allows_stale opt \<or> c sn = None" by blast
  from ld obtain s where ss: "stream_state cat st sn (stream_version st sn) = Inr s"
    and vs: "vs = (stream_version st sn, s)" and c': "c' = c(sn \<mapsto> vs)"
    by (auto simp: load_fresh[OF wf coh comp fresh] split: sum.splits)
  have "-1 \<le> stream_version st sn" by (simp add: stream_version_def)
  with ss vs c' cache_coherent_upd[OF coh, of "stream_version st sn" sn s] show ?thesis by simp
qed

lemma stream_state_empty_store [simp]:
  "stream_state cat \<lparr>st_log = [], st_sql_condition = b\<rparr> sn v = Inr (cat_fold cat (cat_initial cat) [])"
  by (simp add: stream_state_def stream_messages_def)

lemma stream_version_empty_store [simp]:
  "stream_version \<lparr>st_log = [], st_sql_condition = b\<rparr> sn = -1"
  by (simp add: stream_version_def stream_messages_def)

lemma store_wf_empty [simp]: "store_wf \<lparr>st_log = [], st_sql_condition = b\<rparr>"
  by (simp add: store_wf_def)

end
