(* ===== verification/Decider.thy ===== *)
theory Decider
  imports Store
begin

text \<open>
  The Decider / transaction engine (spec section 4.4; the engine's code is not
  under \<^verbatim>\<open>src/\<close>, so this theory follows the spec).  A decider binds a
  category, a stream, an encoding context and the maximum number of attempts.
  \<open>transact\<close> loads the stream, runs the decision, appends its events at the
  loaded version and, on a version conflict, reloads with \<open>RequireLoad\<close> and
  runs the decision again, at most \<open>dc_max_attempts\<close> times in all.

  A decision may have external effects (\<^verbatim>\<open>invoice-auto-emailer.ts\<close> sends mail
  inside it), so it returns the effects it performed with its events; the
  environment keeps the store, the cache and the log of effects.  One iteration
  of the loop is \<open>sync_attempt\<close>; \<open>transact_loop\<close> iterates it and terminates
  because every retry increases the attempt counter up to the bound.
\<close>

record ('e, 's, 'c, 'f) decider =
  dc_category :: "('e, 's, 'c, 'f) category"
  dc_stream :: stream_name
  dc_context :: 'c
  dc_max_attempts :: nat

record ('s, 'f, 'x) env =
  env_store :: "'f store"
  env_cache :: "'s cache"
  env_effects :: "'x list"

text \<open>The outcome of one iteration: finished, retry at the next attempt, or a fatal error.\<close>

datatype 's outcome = Done "version \<times> 's" | Retry nat "version \<times> 's" | Fail error

definition sync_attempt ::
  "('e, 's, 'c, 'f) decider \<Rightarrow> ('s \<Rightarrow> 'x list \<times> 'e list) \<Rightarrow> nat \<Rightarrow> version \<times> 's
   \<Rightarrow> ('s, 'f, 'x) env \<Rightarrow> 's outcome \<times> ('s, 'f, 'x) env" where
  "sync_attempt d dec attempt vs e =
     (let (xs, evs) = dec (snd vs);
          e1 = e\<lparr>env_effects := env_effects e @ xs\<rparr>;
          cat = dc_category d; sn = dc_stream d
      in if evs = [] then (Done vs, e1)
         else case append cat (env_store e1) (env_cache e1) sn (dc_context d) vs evs of
           Inr (vs', st', c') \<Rightarrow> (Done vs', e1\<lparr>env_store := st', env_cache := c'\<rparr>)
         | Inl err \<Rightarrow>
             (case err of
                VersionConflict _ _ \<Rightarrow>
                  if dc_max_attempts d \<le> attempt
                  then (Fail (RetryBudgetExceeded attempt (fst vs)), e1)
                  else (case load cat (env_store e1) (env_cache e1) sn RequireLoad of
                          Inl err' \<Rightarrow> (Fail err', e1)
                        | Inr (vs', c') \<Rightarrow> (Retry (Suc attempt) vs', e1\<lparr>env_cache := c'\<rparr>))
              | _ \<Rightarrow> (Fail err, e1)))"

function transact_loop ::
  "('e, 's, 'c, 'f) decider \<Rightarrow> ('s \<Rightarrow> 'x list \<times> 'e list) \<Rightarrow> nat \<Rightarrow> version \<times> 's
   \<Rightarrow> ('s, 'f, 'x) env \<Rightarrow> error \<times> ('s, 'f, 'x) env + (version \<times> 's) \<times> ('s, 'f, 'x) env" where
  "transact_loop d dec attempt vs e =
     (case sync_attempt d dec attempt vs e of
        (Done vs', e') \<Rightarrow> Inr (vs', e')
      | (Fail err, e') \<Rightarrow> Inl (err, e')
      | (Retry a' vs', e') \<Rightarrow> transact_loop d dec a' vs' e')"
  by pat_completeness auto
termination
  by (relation "measure (\<lambda>(d, dec, attempt, vs, e). dc_max_attempts d - attempt)")
     (auto simp: sync_attempt_def Let_def split: prod.splits if_splits sum.splits error.splits)

text \<open>\<open>transact\<close>: load with the caller's option, then the loop from attempt 1.\<close>

definition transact ::
  "('e, 's, 'c, 'f) decider \<Rightarrow> ('s \<Rightarrow> 'x list \<times> 'e list) \<Rightarrow> load_option \<Rightarrow> ('s, 'f, 'x) env
   \<Rightarrow> error \<times> ('s, 'f, 'x) env + (version \<times> 's) \<times> ('s, 'f, 'x) env" where
  "transact d dec opt e =
     (case load (dc_category d) (env_store e) (env_cache e) (dc_stream d) opt of
        Inl err \<Rightarrow> Inl (err, e)
      | Inr (vs, c) \<Rightarrow> transact_loop d dec 1 vs (e\<lparr>env_cache := c\<rparr>))"

text \<open>\<open>query\<close>: load with the caller's option and project the state.\<close>

definition query ::
  "('e, 's, 'c, 'f) decider \<Rightarrow> ('s \<Rightarrow> 'r) \<Rightarrow> load_option \<Rightarrow> ('s, 'f, 'x) env
   \<Rightarrow> error + 'r \<times> ('s, 'f, 'x) env" where
  "query d proj opt e =
     (case load (dc_category d) (env_store e) (env_cache e) (dc_stream d) opt of
        Inl err \<Rightarrow> Inl err
      | Inr (vs, c) \<Rightarrow> Inr (proj (snd vs), e\<lparr>env_cache := c\<rparr>))"

text \<open>The environment invariant: a well-formed store and a coherent cache.\<close>

definition env_ok :: "('e, 's, 'c, 'f) category \<Rightarrow> ('s, 'f, 'x) env \<Rightarrow> bool" where
  "env_ok cat e \<longleftrightarrow> store_wf (env_store e) \<and> cache_coherent cat (env_store e) (env_cache e)"

text \<open>What a stream is after a commit of decided events at its current version.\<close>

definition committed_stream ::
  "('e, 's, 'c, 'f) category \<Rightarrow> 'f store \<Rightarrow> stream_name \<Rightarrow> 'c \<Rightarrow> 'e list \<Rightarrow> 'f timeline_event list" where
  "committed_stream cat st sn ctx evs =
     stream_messages st sn @
     stamp (stream_version st sn + 1) (int (length (st_log st)) + 1) (map (\<lambda>e. encode (cat_codec cat) e ctx) evs)"

declare sync_attempt_def [model_simps]

subsection \<open>Lemmas: one attempt, the loop, transact\<close>

lemma sync_attempt_Retry:
  "sync_attempt d dec attempt vs e = (Retry a' vs', e') \<Longrightarrow> a' = Suc attempt \<and> attempt < dc_max_attempts d"
  unfolding sync_attempt_def
  by (auto simp: Let_def split: prod.splits if_splits sum.splits error.splits)

lemma append_at_version:
  assumes "fst vs = stream_version st sn"
  shows "\<exists>st'. append cat st c sn ctx vs evs =
                Inr ((fst vs + int (length evs), cat_fold cat (snd vs) evs), st',
                     c(sn \<mapsto> (fst vs + int (length evs), cat_fold cat (snd vs) evs))) \<and>
              stream_messages st' sn = committed_stream cat st sn ctx evs"
  using assms
  by (auto simp: append_def write_messages_def Let_def committed_stream_def stream_messages_log_append)

lemma sync_attempt_empty:
  "dec (snd vs) = (xs, []) \<Longrightarrow>
   sync_attempt d dec a vs e = (Done vs, e\<lparr>env_effects := env_effects e @ xs\<rparr>)"
  by (simp add: sync_attempt_def)

lemma sync_attempt_commit:
  "dec (snd vs) = (xs, evs) \<Longrightarrow> evs \<noteq> [] \<Longrightarrow>
   append (dc_category d) (env_store e) (env_cache e) (dc_stream d) (dc_context d) vs evs = Inr (vs', st', c') \<Longrightarrow>
   sync_attempt d dec a vs e = (Done vs', e\<lparr>env_effects := env_effects e @ xs, env_store := st', env_cache := c'\<rparr>)"
  by (simp add: sync_attempt_def)

lemma sync_attempt_conflict:
  assumes "dec (snd vs) = (xs, evs)" "evs \<noteq> []" "fst vs \<noteq> stream_version (env_store e) (dc_stream d)"
  shows "sync_attempt d dec a vs e =
     (if dc_max_attempts d \<le> a
      then (Fail (RetryBudgetExceeded a (fst vs)), e\<lparr>env_effects := env_effects e @ xs\<rparr>)
      else (case load (dc_category d) (env_store e) (env_cache e) (dc_stream d) RequireLoad of
              Inl err' \<Rightarrow> (Fail err', e\<lparr>env_effects := env_effects e @ xs\<rparr>)
            | Inr (vs', c') \<Rightarrow> (Retry (Suc a) vs', e\<lparr>env_effects := env_effects e @ xs, env_cache := c'\<rparr>)))"
proof -
  have "append (dc_category d) (env_store e) (env_cache e) (dc_stream d) (dc_context d) vs evs =
        Inl (VersionConflict (fst vs) (stream_version (env_store e) (dc_stream d)))"
    using assms(3) by (simp add: append_Inl)
  with assms(1,2) show ?thesis
    by (simp add: sync_attempt_def split: sum.splits prod.splits)
qed

declare transact_loop.simps [simp del]

lemma env_ok_effects [simp]: "env_ok cat (e\<lparr>env_effects := xs\<rparr>) = env_ok cat e"
  by (simp add: env_ok_def)

lemma transact_loop_Done:
  "sync_attempt d dec a vs e = (Done vs', e') \<Longrightarrow> transact_loop d dec a vs e = Inr (vs', e')"
  by (simp add: transact_loop.simps)

lemma transact_loop_Retry:
  "sync_attempt d dec a vs e = (Retry a' vs', e') \<Longrightarrow> transact_loop d dec a vs e = transact_loop d dec a' vs' e'"
  by (simp add: transact_loop.simps)

lemma transact_loop_Fail:
  "sync_attempt d dec a vs e = (Fail err, e') \<Longrightarrow> transact_loop d dec a vs e = Inl (err, e')"
  by (simp add: transact_loop.simps)

lemma transact_loop_fresh:
  assumes ok: "env_ok (dc_category d) e" and comp: "composable (cat_fold (dc_category d))"
    and rt: "\<And>ev. ev \<in> set evs \<Longrightarrow> codec_roundtrip (cat_codec (dc_category d)) ev (dc_context d)"
    and v: "fst vs = stream_version (env_store e) (dc_stream d)"
    and tok: "stream_state (dc_category d) (env_store e) (dc_stream d) (fst vs) = Inr (snd vs)"
    and dec: "dec (snd vs) = (xs, evs)"
  shows "\<exists>e'. transact_loop d dec a vs e =
              Inr ((fst vs + int (length evs), if evs = [] then snd vs else cat_fold (dc_category d) (snd vs) evs), e') \<and>
            env_ok (dc_category d) e' \<and> env_effects e' = env_effects e @ xs \<and>
            stream_messages (env_store e') (dc_stream d) =
              committed_stream (dc_category d) (env_store e) (dc_stream d) (dc_context d) evs"
proof (cases "evs = []")
  case True
  show ?thesis
    using transact_loop_Done[OF sync_attempt_empty[where dec = dec and vs = vs, OF dec[unfolded True], of d a e]] ok True
    by (simp add: committed_stream_def)
next
  case False
  let ?cat = "dc_category d" and ?sn = "dc_stream d"
  from append_at_version[OF v, of ?cat "env_cache e" "dc_context d" evs]
  obtain st' where ap: "append ?cat (env_store e) (env_cache e) ?sn (dc_context d) vs evs =
                  Inr ((fst vs + int (length evs), cat_fold ?cat (snd vs) evs), st',
                       (env_cache e)(?sn \<mapsto> (fst vs + int (length evs), cat_fold ?cat (snd vs) evs)))"
    and sm: "stream_messages st' ?sn = committed_stream ?cat (env_store e) ?sn (dc_context d) evs"
    by blast
  from append_coherent[OF _ _ comp rt tok ap] ok
  have "store_wf st' \<and> cache_coherent ?cat st' ((env_cache e)(?sn \<mapsto> (fst vs + int (length evs), cat_fold ?cat (snd vs) evs)))"
    unfolding env_ok_def by blast
  then show ?thesis
    using transact_loop_Done[OF sync_attempt_commit[where dec = dec and vs = vs, OF dec False ap, of a]] False sm
    by (simp add: env_ok_def)
qed

lemma sync_attempt_effects:
  "sync_attempt d dec a vs e = (r, e') \<Longrightarrow> env_effects e' = env_effects e @ fst (dec (snd vs))"
  unfolding sync_attempt_def
  by (auto simp: Let_def split: prod.splits if_splits sum.splits error.splits)

lemma sync_attempt_store:
  assumes "sync_attempt d dec a vs e = (r, e')"
  shows "env_store e' = env_store e \<or>
         (\<exists>v'. write_messages (env_store e) (dc_stream d)
                 (map (\<lambda>x. encode (cat_codec (dc_category d)) x (dc_context d)) (snd (dec (snd vs)))) (fst vs)
               = Inr (v', env_store e'))"
  using assms unfolding sync_attempt_def append_def
  by (auto simp: Let_def split: prod.splits if_splits sum.splits error.splits)

text \<open>
  A transaction touches only its own stream: whatever its outcome, the store
  gains log entries of the decider's stream and nothing else, so every other
  stream keeps its messages (spec section 4.4: deciders on different streams
  never block one another).
\<close>

lemma sync_attempt_log:
  assumes "sync_attempt d dec a vs e = (r, e')"
  shows "\<exists>xs. env_store e' = (env_store e)\<lparr>st_log := st_log (env_store e) @ xs\<rparr> \<and> (\<forall>m \<in> set xs. fst m = dc_stream d)"
  using sync_attempt_store[OF assms]
proof
  assume "env_store e' = env_store e"
  then show ?thesis by (intro exI[of _ "[]"]) simp
next
  assume "\<exists>v'. write_messages (env_store e) (dc_stream d)
                 (map (\<lambda>x. encode (cat_codec (dc_category d)) x (dc_context d)) (snd (dec (snd vs)))) (fst vs)
               = Inr (v', env_store e')"
  then show ?thesis by (auto simp: write_messages_Inr)
qed

lemma transact_loop_appends:
  "\<exists>xs. (case transact_loop d dec a vs e of Inl (_, e') \<Rightarrow> env_store e' | Inr (_, e') \<Rightarrow> env_store e') =
          (env_store e)\<lparr>st_log := st_log (env_store e) @ xs\<rparr> \<and> (\<forall>m \<in> set xs. fst m = dc_stream d)"
proof (induction d dec a vs e rule: transact_loop.induct)
  case (1 d dec attempt vs e)
  obtain r e' where sa: "sync_attempt d dec attempt vs e = (r, e')" by fastforce
  obtain xs where xs: "env_store e' = (env_store e)\<lparr>st_log := st_log (env_store e) @ xs\<rparr>"
    and own: "\<forall>m \<in> set xs. fst m = dc_stream d"
    using sync_attempt_log[OF sa] by blast
  show ?case
  proof (cases r)
    case (Done vs')
    then show ?thesis using xs own transact_loop_Done[OF sa[unfolded Done]] by auto
  next
    case (Fail err)
    then show ?thesis using xs own transact_loop_Fail[OF sa[unfolded Fail]] by auto
  next
    case (Retry a' vs')
    obtain ys where ys: "(case transact_loop d dec a' vs' e' of Inl (_, e'') \<Rightarrow> env_store e'' | Inr (_, e'') \<Rightarrow> env_store e'') =
          (env_store e')\<lparr>st_log := st_log (env_store e') @ ys\<rparr>" and own': "\<forall>m \<in> set ys. fst m = dc_stream d"
      using "1.IH"[OF sa[symmetric] Retry] by blast
    show ?thesis
      using ys own own' xs transact_loop_Retry[OF sa[unfolded Retry]] by (intro exI[of _ "xs @ ys"]) auto
  qed
qed

lemma transact_appends:
  "\<exists>xs. (case transact d dec opt e of Inl (_, e') \<Rightarrow> env_store e' | Inr (_, e') \<Rightarrow> env_store e') =
          (env_store e)\<lparr>st_log := st_log (env_store e) @ xs\<rparr> \<and> (\<forall>m \<in> set xs. fst m = dc_stream d)"
proof (cases "load (dc_category d) (env_store e) (env_cache e) (dc_stream d) opt")
  case (Inr p)
  obtain vs c where "p = (vs, c)" by fastforce
  then show ?thesis
    using Inr transact_loop_appends[of d dec 1 vs "e\<lparr>env_cache := c\<rparr>"] by (simp add: transact_def)
qed (auto simp: transact_def intro: exI[of _ "[]"])

lemma env_ok_load:
  assumes ok: "env_ok (dc_category d) e" and comp: "composable (cat_fold (dc_category d))"
    and ld: "load (dc_category d) (env_store e) (env_cache e) (dc_stream d) opt = Inr (vs, c)"
  shows "env_ok (dc_category d) (e\<lparr>env_cache := c\<rparr>) \<and>
         stream_state (dc_category d) (env_store e) (dc_stream d) (fst vs) = Inr (snd vs)"
  using load_coherent[OF _ _ comp ld] ok by (simp add: env_ok_def)

theorem transact_commits_current:
  assumes ok: "env_ok (dc_category d) e" and comp: "composable (cat_fold (dc_category d))"
    and rt: "\<And>ev. ev \<in> set evs \<Longrightarrow> codec_roundtrip (cat_codec (dc_category d)) ev (dc_context d)"
    and fresh: "\<not> allows_stale opt"
    and cur: "stream_state (dc_category d) (env_store e) (dc_stream d) (stream_version (env_store e) (dc_stream d)) = Inr s"
    and dec: "dec s = (xs, evs)"
  shows "\<exists>e'. transact d dec opt e =
              Inr ((stream_version (env_store e) (dc_stream d) + int (length evs),
                    if evs = [] then s else cat_fold (dc_category d) s evs), e') \<and>
            env_ok (dc_category d) e' \<and> env_effects e' = env_effects e @ xs \<and>
            stream_messages (env_store e') (dc_stream d) =
              committed_stream (dc_category d) (env_store e) (dc_stream d) (dc_context d) evs"
proof -
  let ?V = "stream_version (env_store e) (dc_stream d)"
  let ?c = "(env_cache e)(dc_stream d \<mapsto> (?V, s))"
  have ld: "load (dc_category d) (env_store e) (env_cache e) (dc_stream d) opt = Inr ((?V, s), ?c)"
    using load_fresh[of "env_store e" "dc_category d" "env_cache e" opt "dc_stream d"] ok comp fresh cur
    by (simp add: env_ok_def)
  from env_ok_load[OF ok comp ld] have ok': "env_ok (dc_category d) (e\<lparr>env_cache := ?c\<rparr>)"
    and tok: "stream_state (dc_category d) (env_store e) (dc_stream d) (fst (?V, s)) = Inr (snd (?V, s))"
    by simp_all
  have dec': "dec (snd (?V, s)) = (xs, evs)" using dec by simp
  have tok': "stream_state (dc_category d) (env_store (e\<lparr>env_cache := ?c\<rparr>)) (dc_stream d) (fst (?V, s)) = Inr (snd (?V, s))"
    and v': "fst (?V, s) = stream_version (env_store (e\<lparr>env_cache := ?c\<rparr>)) (dc_stream d)"
    using tok by simp_all
  from transact_loop_fresh[where vs = "(?V, s)" and dec = dec, OF ok' comp rt v' tok' dec', of 1]
  obtain e' where r: "transact_loop d dec 1 (?V, s) (e\<lparr>env_cache := ?c\<rparr>) =
      Inr ((?V + int (length evs), if evs = [] then s else cat_fold (dc_category d) s evs), e')"
    and rest: "env_ok (dc_category d) e'" "env_effects e' = env_effects e @ xs"
      "stream_messages (env_store e') (dc_stream d) = committed_stream (dc_category d) (env_store e) (dc_stream d) (dc_context d) evs"
    by auto
  show ?thesis
    using r rest by (intro exI[of _ e']) (simp add: transact_def ld)
qed

theorem transact_stale_retries:
  assumes ok: "env_ok (dc_category d) e" and comp: "composable (cat_fold (dc_category d))"
    and rt: "\<And>ev. ev \<in> set evs \<Longrightarrow> codec_roundtrip (cat_codec (dc_category d)) ev (dc_context d)"
    and cached: "env_cache e (dc_stream d) = Some (v0, s0)" and stale: "allows_stale opt"
    and behind: "v0 \<noteq> stream_version (env_store e) (dc_stream d)"
    and dec0: "dec s0 = (xs0, evs0)" and ne: "evs0 \<noteq> []"
    and att: "2 \<le> dc_max_attempts d"
    and cur: "stream_state (dc_category d) (env_store e) (dc_stream d) (stream_version (env_store e) (dc_stream d)) = Inr s"
    and dec: "dec s = (xs, evs)"
  shows "\<exists>e'. transact d dec opt e =
              Inr ((stream_version (env_store e) (dc_stream d) + int (length evs),
                    if evs = [] then s else cat_fold (dc_category d) s evs), e') \<and>
            env_ok (dc_category d) e' \<and> env_effects e' = env_effects e @ xs0 @ xs \<and>
            stream_messages (env_store e') (dc_stream d) =
              committed_stream (dc_category d) (env_store e) (dc_stream d) (dc_context d) evs"
proof -
  let ?V = "stream_version (env_store e) (dc_stream d)"
  let ?c = "(env_cache e)(dc_stream d \<mapsto> (?V, s))"
  let ?e1 = "e\<lparr>env_effects := env_effects e @ xs0\<rparr>"
  have ld0: "load (dc_category d) (env_store e) (env_cache e) (dc_stream d) opt = Inr ((v0, s0), env_cache e)"
    using cached stale by (simp add: load_def)
  have ld: "load (dc_category d) (env_store ?e1) (env_cache ?e1) (dc_stream d) RequireLoad = Inr ((?V, s), ?c)"
    using load_fresh[of "env_store e" "dc_category d" "env_cache e" RequireLoad "dc_stream d"] ok comp cur
    by (simp add: env_ok_def)
  have step: "sync_attempt d dec 1 (v0, s0) e = (Retry 2 (?V, s), ?e1\<lparr>env_cache := ?c\<rparr>)"
    using sync_attempt_conflict[of dec "(v0, s0)" xs0 evs0 e d 1] dec0 ne behind att ld
    by (simp add: numeral_2_eq_2)
  have ok1: "env_ok (dc_category d) ?e1" using ok by simp
  from env_ok_load[OF ok1 comp ld] have ok': "env_ok (dc_category d) (?e1\<lparr>env_cache := ?c\<rparr>)"
    and tok: "stream_state (dc_category d) (env_store ?e1) (dc_stream d) (fst (?V, s)) = Inr (snd (?V, s))"
    by simp_all
  have dec': "dec (snd (?V, s)) = (xs, evs)" using dec by simp
  have tok': "stream_state (dc_category d) (env_store (?e1\<lparr>env_cache := ?c\<rparr>)) (dc_stream d) (fst (?V, s)) = Inr (snd (?V, s))"
    and v': "fst (?V, s) = stream_version (env_store (?e1\<lparr>env_cache := ?c\<rparr>)) (dc_stream d)"
    using tok by simp_all
  from transact_loop_fresh[where vs = "(?V, s)" and dec = dec, OF ok' comp rt v' tok' dec', of 2]
  obtain e' where r: "transact_loop d dec 2 (?V, s) (?e1\<lparr>env_cache := ?c\<rparr>) =
      Inr ((?V + int (length evs), if evs = [] then s else cat_fold (dc_category d) s evs), e')"
    and rest: "env_ok (dc_category d) e'" "env_effects e' = env_effects e @ xs0 @ xs"
      "stream_messages (env_store e') (dc_stream d) = committed_stream (dc_category d) (env_store e) (dc_stream d) (dc_context d) evs"
    by auto
  have "transact d dec opt e = transact_loop d dec 2 (?V, s) (?e1\<lparr>env_cache := ?c\<rparr>)"
    unfolding transact_def ld0 using transact_loop_Retry[OF step] by simp
  with r rest show ?thesis by auto
qed

theorem transact_budget_exhausted:
  assumes cached: "env_cache e (dc_stream d) = Some (v0, s0)" and stale: "allows_stale opt"
    and behind: "v0 \<noteq> stream_version (env_store e) (dc_stream d)"
    and dec0: "dec s0 = (xs0, evs0)" and ne: "evs0 \<noteq> []"
    and att: "dc_max_attempts d \<le> 1"
  shows "transact d dec opt e = Inl (RetryBudgetExceeded 1 v0, e\<lparr>env_effects := env_effects e @ xs0\<rparr>)"
proof -
  have ld0: "load (dc_category d) (env_store e) (env_cache e) (dc_stream d) opt = Inr ((v0, s0), env_cache e)"
    using cached stale by (simp add: load_def)
  have "sync_attempt d dec 1 (v0, s0) e = (Fail (RetryBudgetExceeded 1 v0), e\<lparr>env_effects := env_effects e @ xs0\<rparr>)"
    using sync_attempt_conflict[of dec "(v0, s0)" xs0 evs0 e d 1] dec0 ne behind att by simp
  then show ?thesis by (simp add: transact_def ld0 transact_loop_Fail)
qed

lemma transact_loop_effects_bound:
  "(\<And>s. length (fst (dec s)) = 1) \<Longrightarrow>
   length (env_effects (case transact_loop d dec a vs e of Inl (err, e') \<Rightarrow> e' | Inr (vs', e') \<Rightarrow> e'))
     \<le> length (env_effects e) + Suc (dc_max_attempts d - a)"
proof (induction d dec a vs e rule: transact_loop.induct)
  case (1 d dec a vs e)
  obtain res e1 where sa: "sync_attempt d dec a vs e = (res, e1)" by fastforce
  have len1: "length (env_effects e1) = Suc (length (env_effects e))"
    using sync_attempt_effects[OF sa] "1.prems"[of "snd vs"] by simp
  show ?case
  proof (cases res)
    case (Done vs')
    with sa len1 show ?thesis by (simp add: transact_loop_Done)
  next
    case (Fail err)
    with sa len1 show ?thesis by (simp add: transact_loop_Fail)
  next
    case (Retry a' vs')
    with sa have a': "a' = Suc a" "a < dc_max_attempts d" using sync_attempt_Retry by blast+
    from "1.IH"[OF sa[unfolded Retry, symmetric] refl "1.prems"] len1 a' show ?thesis
      by (simp add: transact_loop_Retry[OF sa[unfolded Retry]])
  qed
qed

lemma stream_state_after_commit:
  assumes wf: "store_wf st" and wf': "store_wf st'" and comp: "composable (cat_fold cat)"
    and rt: "\<And>ev. ev \<in> set evs \<Longrightarrow> codec_roundtrip (cat_codec cat) ev ctx"
    and cur: "stream_state cat st sn (stream_version st sn) = Inr s"
    and sm: "stream_messages st' sn = committed_stream cat st sn ctx evs"
  shows "stream_version st' sn = stream_version st sn + int (length evs) \<and>
         stream_state cat st' sn (stream_version st' sn) = Inr (if evs = [] then s else cat_fold cat s evs)"
proof -
  let ?dec = "map_filter_err (try_decode (cat_codec cat))"
  from cur obtain es where es: "?dec (stream_messages st sn) = Inr es"
    and s: "s = cat_fold cat (cat_initial cat) es"
    by (auto simp: stream_state_version[OF wf] split: sum.splits)
  have "?dec (stream_messages st' sn) = Inr (es @ evs)"
    using es stamp_decode[OF rt] by (simp add: sm committed_stream_def map_filter_err_append)
  then have "stream_state cat st' sn (stream_version st' sn) = Inr (cat_fold cat (cat_initial cat) (es @ evs))"
    by (simp add: stream_state_version[OF wf'])
  moreover have "stream_version st' sn = stream_version st sn + int (length evs)"
    using sm by (simp add: committed_stream_def stream_version_def)
  ultimately show ?thesis
    using s comp by (cases "evs = []") (simp_all add: composableD)
qed

lemma query_fresh:
  assumes ok: "env_ok (dc_category d) e" and comp: "composable (cat_fold (dc_category d))"
    and fresh: "\<not> allows_stale opt"
    and cur: "stream_state (dc_category d) (env_store e) (dc_stream d) (stream_version (env_store e) (dc_stream d)) = Inr s"
  shows "query d proj opt e =
           Inr (proj s, e\<lparr>env_cache := (env_cache e)(dc_stream d \<mapsto> (stream_version (env_store e) (dc_stream d), s))\<rparr>)"
  using load_fresh[of "env_store e" "dc_category d" "env_cache e" opt "dc_stream d"] ok comp fresh cur
  by (simp add: env_ok_def query_def)

lemma transact_no_events:
  assumes ok: "env_ok (dc_category d) e" and comp: "composable (cat_fold (dc_category d))"
    and fresh: "\<not> allows_stale opt"
    and cur: "stream_state (dc_category d) (env_store e) (dc_stream d) (stream_version (env_store e) (dc_stream d)) = Inr s"
    and dec: "dec s = (xs, [])"
  shows "transact d dec opt e =
           Inr ((stream_version (env_store e) (dc_stream d), s),
                e\<lparr>env_cache := (env_cache e)(dc_stream d \<mapsto> (stream_version (env_store e) (dc_stream d), s)),
                  env_effects := env_effects e @ xs\<rparr>)"
proof -
  let ?V = "stream_version (env_store e) (dc_stream d)"
  let ?c = "(env_cache e)(dc_stream d \<mapsto> (?V, s))"
  have ld: "load (dc_category d) (env_store e) (env_cache e) (dc_stream d) opt = Inr ((?V, s), ?c)"
    using load_fresh[of "env_store e" "dc_category d" "env_cache e" opt "dc_stream d"] ok comp fresh cur
    by (simp add: env_ok_def)
  have "sync_attempt d dec 1 (?V, s) (e\<lparr>env_cache := ?c\<rparr>) =
          (Done (?V, s), e\<lparr>env_cache := ?c, env_effects := env_effects e @ xs\<rparr>)"
    using sync_attempt_empty[of dec "(?V, s)" xs d 1 "e\<lparr>env_cache := ?c\<rparr>"] dec by simp
  then show ?thesis by (simp add: transact_def ld transact_loop_Done)
qed

lemma env_ok_empty [simp]:
  "env_ok cat \<lparr>env_store = \<lparr>st_log = [], st_sql_condition = b\<rparr>, env_cache = Map.empty, env_effects = xs\<rparr>"
  by (simp add: env_ok_def cache_coherent_def)

end
