(* ===== verification/InvoiceAutoEmailer.thy ===== *)
theory InvoiceAutoEmailer
  imports Decider
begin

text \<open>
  The invoice auto-emailer, \<^verbatim>\<open>apps/example/src/domain/invoice-auto-emailer.ts\<close>:
  a reaction to \<open>InvoiceRaised\<close> that e-mails the payer once per invoice and
  records the outcome on the invoice's \<open>InvoiceAutoEmail\<close> stream.  Its events
  are \<open>EmailSent\<close> and \<open>EmailSendingFailed\<close>, decoded by an upcast codec whose
  payload schemas are zod objects; the state is the last event.

  The decision of \<open>sendEmail\<close> reads the payer's profile and sends the mail
  \<^emph>\<open>inside\<close> the decision, before it returns the events.  The model makes both
  calls external effects: the decision returns the list of calls it made
  (\<open>ae_effect\<close>) with its events, and the Decider logs them on every attempt.
  The payer service, the mailer and the zod string checks (\<open>email()\<close>,
  \<open>uuid()\<close>) are parameters: the first two are outside \<^verbatim>\<open>src/\<close>, the last
  are library code.  Amounts are integers, printed as \<open>${amount}\<close> prints them.
\<close>

subsection \<open>Stream, events and codec\<close>

definition CATEGORY :: string where
  "CATEGORY = ''InvoiceAutoEmail''"

text \<open>\<open>StreamId.gen(InvoiceId.toString)\<close>; \<open>InvoiceId.toString\<close> is a parameter.\<close>

definition ae_streamId :: "(string \<Rightarrow> string) \<Rightarrow> string \<Rightarrow> string" where
  "ae_streamId invoice_to_string invoiceId = invoice_to_string invoiceId"

record email_sent =
  sent_email :: string
  sent_payer_id :: string

record email_failure =
  fail_payer_id :: string
  fail_reason :: string

datatype ae_event = EmailSent email_sent | EmailSendingFailed email_failure

definition json_string_field :: "(string \<times> json) list \<Rightarrow> string \<Rightarrow> string option" where
  "json_string_field kvs k = (case map_of kvs k of Some (JStr v) \<Rightarrow> Some v | _ \<Rightarrow> None)"

text \<open>
  \<open>EmailSentSchema.parse\<close> and \<open>EmailFailureSchema.parse\<close>: the payload must be
  an object whose fields are strings passing their checks; the result keeps
  only the schema's fields.  \<open>None\<close> is zod throwing.
\<close>

definition EmailSentSchema_parse ::
  "(string \<Rightarrow> bool) \<Rightarrow> (string \<Rightarrow> bool) \<Rightarrow> json option \<Rightarrow> email_sent option" where
  "EmailSentSchema_parse is_email is_uuid d =
     (case d of
        Some (JObj kvs) \<Rightarrow>
          (case (json_string_field kvs ''email'', json_string_field kvs ''payer_id'') of
             (Some em, Some pid) \<Rightarrow>
               if is_email em \<and> is_uuid pid then Some \<lparr>sent_email = em, sent_payer_id = pid\<rparr> else None
           | _ \<Rightarrow> None)
      | _ \<Rightarrow> None)"

definition EmailFailureSchema_parse :: "(string \<Rightarrow> bool) \<Rightarrow> json option \<Rightarrow> email_failure option" where
  "EmailFailureSchema_parse is_uuid d =
     (case d of
        Some (JObj kvs) \<Rightarrow>
          (case (json_string_field kvs ''payer_id'', json_string_field kvs ''reason'') of
             (Some pid, Some r) \<Rightarrow> if is_uuid pid then Some \<lparr>fail_payer_id = pid, fail_reason = r\<rparr> else None
           | _ \<Rightarrow> None)
      | _ \<Rightarrow> None)"

text \<open>The JSON object an event is at run time, fields in the order of the schemas.\<close>

definition ae_shape :: "ae_event \<Rightarrow> json stream_event" where
  "ae_shape e =
     (case e of
        EmailSent r \<Rightarrow>
          \<lparr>ev_id = None, ev_type = ''EmailSent'',
           ev_data = Some (JObj [(''email'', JStr (sent_email r)), (''payer_id'', JStr (sent_payer_id r))]),
           ev_meta = None\<rparr>
      | EmailSendingFailed r \<Rightarrow>
          \<lparr>ev_id = None, ev_type = ''EmailSendingFailed'',
           ev_data = Some (JObj [(''payer_id'', JStr (fail_payer_id r)), (''reason'', JStr (fail_reason r))]),
           ev_meta = None\<rparr>)"

text \<open>\<open>Codec.Upcast.body({EmailSent: ..., EmailSendingFailed: ...})\<close>, lines 29--32.\<close>

definition ae_mapping ::
  "(string \<Rightarrow> bool) \<Rightarrow> (string \<Rightarrow> bool) \<Rightarrow> (string \<times> (json option \<Rightarrow> ae_event option)) list" where
  "ae_mapping is_email is_uuid =
     [(''EmailSent'', \<lambda>d. map_option EmailSent (EmailSentSchema_parse is_email is_uuid d)),
      (''EmailSendingFailed'', \<lambda>d. map_option EmailSendingFailed (EmailFailureSchema_parse is_uuid d))]"

definition ae_codec :: "(string \<Rightarrow> bool) \<Rightarrow> (string \<Rightarrow> bool) \<Rightarrow> (ae_event, unit, string) codec" where
  "ae_codec is_email is_uuid =
     upcast_codec (json_codec (\<lambda>_. None)) (upcast_body (ae_mapping is_email is_uuid)) ae_shape"

text \<open>The events the schemas accept: their strings pass the zod checks.\<close>

definition ae_valid :: "(string \<Rightarrow> bool) \<Rightarrow> (string \<Rightarrow> bool) \<Rightarrow> ae_event \<Rightarrow> bool" where
  "ae_valid is_email is_uuid ev =
     (case ev of
        EmailSent r \<Rightarrow> is_email (sent_email r) \<and> is_uuid (sent_payer_id r)
      | EmailSendingFailed r \<Rightarrow> is_uuid (fail_payer_id r))"

subsection \<open>State and fold\<close>

type_synonym ae_state = "ae_event option"

definition ae_initial :: ae_state where
  "ae_initial = None"

definition ae_fold :: "ae_state \<Rightarrow> ae_event list \<Rightarrow> ae_state" where
  "ae_fold state events = (if events = [] then state else Some (last events))"

subsection \<open>The decision of sendEmail\<close>

text \<open>
  The external calls the decision makes: \<open>payerService.readProfile(payerId)\<close>
  and \<open>mailer.sendEmail(to, subject, body)\<close>.  The mailer either resolves or
  throws an error whose \<open>message\<close> may be missing.
\<close>

datatype ae_effect = ReadProfile string | SendMail string string string

datatype mail_result = MailSent | MailThrew "string option"

definition is_EmailSent :: "ae_state \<Rightarrow> bool" where
  "is_EmailSent state = (case state of Some (EmailSent r) \<Rightarrow> True | _ \<Rightarrow> False)"

definition mail_subject :: "int \<Rightarrow> string" where
  "mail_subject amount = ''Invoice for '' @ show_int amount"

definition mail_body :: "int \<Rightarrow> string" where
  "mail_body amount = ''Please pay '' @ show_int amount @ '' by tuesday''"

text \<open>
  Lines 49--71.  \<open>readProfile\<close> gives the payer's e-mail address, or \<open>None\<close> for
  no profile.
\<close>

definition ae_decide ::
  "(string \<Rightarrow> string option) \<Rightarrow> (string \<Rightarrow> string \<Rightarrow> string \<Rightarrow> mail_result) \<Rightarrow> string \<Rightarrow> int
   \<Rightarrow> ae_state \<Rightarrow> ae_effect list \<times> ae_event list" where
  "ae_decide readProfile mailer payerId amount state =
     (if is_EmailSent state then ([], [])
      else case readProfile payerId of
        None \<Rightarrow> ([ReadProfile payerId],
                 [EmailSendingFailed \<lparr>fail_payer_id = payerId, fail_reason = ''Payer not found''\<rparr>])
      | Some email \<Rightarrow>
          ([ReadProfile payerId, SendMail email (mail_subject amount) (mail_body amount)],
           case mailer email (mail_subject amount) (mail_body amount) of
             MailSent \<Rightarrow> [EmailSent \<lparr>sent_email = email, sent_payer_id = payerId\<rparr>]
           | MailThrew msg \<Rightarrow>
               [EmailSendingFailed \<lparr>fail_payer_id = payerId,
                  fail_reason = (case msg of None \<Rightarrow> ''Unknown failure'' | Some m \<Rightarrow> m)\<rparr>]))"

subsection \<open>Service and handler\<close>

text \<open>
  \<open>resolveCategory\<close> and \<open>create\<close>: the category of both store back-ends has the
  same codec, fold and initial state (how each back-end loads, in full or the
  latest event only, is the \<open>AccessStrategy\<close> theory); the decider uses the
  default budget of three attempts.
\<close>

definition ae_category ::
  "(string \<Rightarrow> bool) \<Rightarrow> (string \<Rightarrow> bool) \<Rightarrow> (ae_event, ae_state, unit, string) category" where
  "ae_category is_email is_uuid =
     \<lparr>cat_name = CATEGORY, cat_codec = ae_codec is_email is_uuid, cat_fold = ae_fold, cat_initial = ae_initial\<rparr>"

definition ae_resolve ::
  "(string \<Rightarrow> bool) \<Rightarrow> (string \<Rightarrow> bool) \<Rightarrow> (string \<Rightarrow> string) \<Rightarrow> string
   \<Rightarrow> (ae_event, ae_state, unit, string) decider" where
  "ae_resolve is_email is_uuid invoice_to_string invoiceId =
     \<lparr>dc_category = ae_category is_email is_uuid,
      dc_stream = StreamName CATEGORY (ae_streamId invoice_to_string invoiceId),
      dc_context = (), dc_max_attempts = 3\<rparr>"

type_synonym ae_env = "(ae_state, string, ae_effect) env"

definition Service_sendEmail ::
  "(string \<Rightarrow> bool) \<Rightarrow> (string \<Rightarrow> bool) \<Rightarrow> (string \<Rightarrow> string) \<Rightarrow> (string \<Rightarrow> string option)
   \<Rightarrow> (string \<Rightarrow> string \<Rightarrow> string \<Rightarrow> mail_result) \<Rightarrow> string \<Rightarrow> string \<Rightarrow> int \<Rightarrow> ae_env
   \<Rightarrow> error \<times> ae_env + (version \<times> ae_state) \<times> ae_env" where
  "Service_sendEmail is_email is_uuid invoice_to_string readProfile mailer invoiceId payerId amount e =
     transact (ae_resolve is_email is_uuid invoice_to_string invoiceId)
       (ae_decide readProfile mailer payerId amount) RequireLoad e"

definition Service_inspectState ::
  "(string \<Rightarrow> bool) \<Rightarrow> (string \<Rightarrow> bool) \<Rightarrow> (string \<Rightarrow> string) \<Rightarrow> string \<Rightarrow> ae_env
   \<Rightarrow> error + ae_state \<times> ae_env" where
  "Service_inspectState is_email is_uuid invoice_to_string invoiceId e =
     query (ae_resolve is_email is_uuid invoice_to_string invoiceId) (\<lambda>s. s) RequireLoad e"

text \<open>
  The invoice events the handler looks at; \<open>Invoice.Stream.tryMatch\<close> and
  \<open>Invoice.Events.codec.tryDecode\<close> (of \<open>events[0]\<close>, \<open>undefined\<close> for an
  empty batch) are parameters.
\<close>

datatype invoice_event = InvoiceRaised string int | InvoiceOther string

text \<open>
  \<open>createHandler\<close>, lines 99--108: a stream that is not an invoice stream, or
  whose id is empty (falsy), and a first event that is not \<open>InvoiceRaised\<close>
  are ignored; otherwise the handler awaits \<open>sendEmail\<close>.
\<close>

definition createHandler ::
  "(string \<Rightarrow> bool) \<Rightarrow> (string \<Rightarrow> bool) \<Rightarrow> (string \<Rightarrow> string) \<Rightarrow> (string \<Rightarrow> string option)
   \<Rightarrow> (string \<Rightarrow> string \<Rightarrow> string \<Rightarrow> mail_result)
   \<Rightarrow> (string \<Rightarrow> string option) \<Rightarrow> (string timeline_event option \<Rightarrow> error + invoice_event option)
   \<Rightarrow> string \<Rightarrow> string timeline_event list \<Rightarrow> ae_env \<Rightarrow> error \<times> ae_env + ae_env" where
  "createHandler is_email is_uuid invoice_to_string readProfile mailer tryMatch tryDecode stream events e =
     (case tryMatch stream of
        None \<Rightarrow> Inr e
      | Some invoiceId \<Rightarrow>
          if invoiceId = [] then Inr e
          else case tryDecode (case events of [] \<Rightarrow> None | ev # _ \<Rightarrow> Some ev) of
            Inl err \<Rightarrow> Inl (err, e)
          | Inr (Some (InvoiceRaised payerId amount)) \<Rightarrow>
              (case Service_sendEmail is_email is_uuid invoice_to_string readProfile mailer invoiceId payerId amount e of
                 Inl (err, e') \<Rightarrow> Inl (err, e')
               | Inr (_, e') \<Rightarrow> Inr e')
          | Inr _ \<Rightarrow> Inr e)"


subsection \<open>Lemmas: fold, codec, sendEmail\<close>

lemma ae_fold_composable: "composable ae_fold"
proof -
  have "composable (\<lambda>s es. if es = [] then s else (\<lambda>s e. Some e) s (last es))"
    by (rule last_event_fold_composable) simp
  then show ?thesis by (simp add: ae_fold_def[abs_def])
qed

lemma ae_shape_decode:
  "try_decode (json_codec (\<lambda>_::unit. None)) (to_timeline (encode (json_codec (\<lambda>_::unit. None)) (ae_shape ev) ctx) i g) =
     Inr (Some (ae_shape ev))"
proof -
  have "try_decode (json_codec (\<lambda>_::unit. None)) (to_timeline (encode (json_codec (\<lambda>_::unit. None)) (ae_shape ev) ctx) i g) =
        Inr (Some \<lparr>ev_id = None, ev_type = ev_type (ae_shape ev), ev_data = ev_data (ae_shape ev), ev_meta = None\<rparr>)"
    by (rule json_codec_roundtrip) (cases ev; auto simp: ae_shape_def)
  then show ?thesis by (cases ev) (simp_all add: ae_shape_def)
qed

lemma ae_mapping_shape:
  "ae_valid is_email is_uuid ev \<Longrightarrow> upcast_body (ae_mapping is_email is_uuid) (ae_shape ev) = Inr (Some ev)"
  by (cases ev) (simp_all add: ae_valid_def ae_shape_def upcast_body_def ae_mapping_def
      EmailSentSchema_parse_def EmailFailureSchema_parse_def json_string_field_def)

lemma ae_codec_roundtrip:
  "ae_valid is_email is_uuid ev \<Longrightarrow> codec_roundtrip (ae_codec is_email is_uuid) ev ctx"
  using ae_shape_decode ae_mapping_shape by (simp add: codec_roundtrip_def ae_codec_def upcast_codec_def)

lemma ae_resolve_sel [simp]:
  "dc_category (ae_resolve ve vu ts x) = ae_category ve vu" "dc_context (ae_resolve ve vu ts x) = ()"
  "dc_max_attempts (ae_resolve ve vu ts x) = 3"
  by (simp_all add: ae_resolve_def)

lemma ae_category_sel [simp]:
  "cat_fold (ae_category ve vu) = ae_fold" "cat_codec (ae_category ve vu) = ae_codec ve vu"
  "cat_initial (ae_category ve vu) = ae_initial"
  by (simp_all add: ae_category_def)

lemma sendEmail_commits:
  assumes ok: "env_ok (ae_category ve vu) e"
    and cur: "stream_state (ae_category ve vu) (env_store e) (dc_stream (ae_resolve ve vu ts iid))
                (stream_version (env_store e) (dc_stream (ae_resolve ve vu ts iid))) = Inr s"
    and dec: "ae_decide rp ml payer amount s = (xs, evs)"
    and valid: "\<And>ev. ev \<in> set evs \<Longrightarrow> ae_valid ve vu ev"
  shows "\<exists>e'. Service_sendEmail ve vu ts rp ml iid payer amount e =
              Inr ((stream_version (env_store e) (dc_stream (ae_resolve ve vu ts iid)) + int (length evs), ae_fold s evs), e') \<and>
            env_ok (ae_category ve vu) e' \<and> env_effects e' = env_effects e @ xs \<and>
            stream_messages (env_store e') (dc_stream (ae_resolve ve vu ts iid)) =
              committed_stream (ae_category ve vu) (env_store e) (dc_stream (ae_resolve ve vu ts iid)) () evs"
proof -
  let ?d = "ae_resolve ve vu ts iid"
  have "\<exists>e'. transact ?d (ae_decide rp ml payer amount) RequireLoad e =
              Inr ((stream_version (env_store e) (dc_stream ?d) + int (length evs),
                    if evs = [] then s else cat_fold (dc_category ?d) s evs), e') \<and>
            env_ok (dc_category ?d) e' \<and> env_effects e' = env_effects e @ xs \<and>
            stream_messages (env_store e') (dc_stream ?d) =
              committed_stream (dc_category ?d) (env_store e) (dc_stream ?d) (dc_context ?d) evs"
    by (rule transact_commits_current)
       (use ok cur dec valid in \<open>simp_all add: ae_fold_composable ae_codec_roundtrip\<close>)
  moreover have "(if evs = [] then s else cat_fold (dc_category ?d) s evs) = ae_fold s evs"
    by (simp add: ae_fold_def)
  ultimately show ?thesis by (simp only: Service_sendEmail_def ae_resolve_sel append_Nil2)
qed

lemma sendEmail_current:
  assumes ok: "env_ok (ae_category ve vu) e"
    and cur: "stream_state (ae_category ve vu) (env_store e) (dc_stream (ae_resolve ve vu ts iid))
                (stream_version (env_store e) (dc_stream (ae_resolve ve vu ts iid))) = Inr s"
    and dec: "ae_decide rp ml payer amount s = (xs, evs)"
    and valid: "\<And>ev. ev \<in> set evs \<Longrightarrow> ae_valid ve vu ev"
  shows "\<exists>e'. Service_sendEmail ve vu ts rp ml iid payer amount e =
              Inr ((stream_version (env_store e) (dc_stream (ae_resolve ve vu ts iid)) + int (length evs), ae_fold s evs), e') \<and>
            env_ok (ae_category ve vu) e' \<and> env_effects e' = env_effects e @ xs \<and>
            stream_state (ae_category ve vu) (env_store e') (dc_stream (ae_resolve ve vu ts iid))
              (stream_version (env_store e') (dc_stream (ae_resolve ve vu ts iid))) = Inr (ae_fold s evs)"
proof -
  let ?sn = "dc_stream (ae_resolve ve vu ts iid)"
  from sendEmail_commits[OF ok cur dec valid] obtain e' where
    r: "Service_sendEmail ve vu ts rp ml iid payer amount e =
          Inr ((stream_version (env_store e) ?sn + int (length evs), ae_fold s evs), e')"
    and ok': "env_ok (ae_category ve vu) e'" and eff: "env_effects e' = env_effects e @ xs"
    and sm: "stream_messages (env_store e') ?sn = committed_stream (ae_category ve vu) (env_store e) ?sn () evs"
    by blast
  have wf: "store_wf (env_store e)" "store_wf (env_store e')" using ok ok' by (simp_all add: env_ok_def)
  have comp: "composable (cat_fold (ae_category ve vu))" by (simp add: ae_fold_composable)
  have rt: "\<And>ev. ev \<in> set evs \<Longrightarrow> codec_roundtrip (cat_codec (ae_category ve vu)) ev ()"
    using valid by (simp add: ae_codec_roundtrip)
  have ifeq: "(if evs = [] then s else cat_fold (ae_category ve vu) s evs) = ae_fold s evs"
    by (simp add: ae_fold_def)
  from stream_state_after_commit[OF wf comp rt cur sm, unfolded ifeq]
  have "stream_state (ae_category ve vu) (env_store e') ?sn (stream_version (env_store e') ?sn) = Inr (ae_fold s evs)"
    by (rule conjunct2)
  with r ok' eff show ?thesis by blast
qed

lemma sendEmail_no_events:
  assumes ok: "env_ok (ae_category ve vu) e"
    and cur: "stream_state (ae_category ve vu) (env_store e) (dc_stream (ae_resolve ve vu ts iid))
                (stream_version (env_store e) (dc_stream (ae_resolve ve vu ts iid))) = Inr s"
    and dec: "ae_decide rp ml payer amount s = ([], [])"
  shows "Service_sendEmail ve vu ts rp ml iid payer amount e =
           Inr ((stream_version (env_store e) (dc_stream (ae_resolve ve vu ts iid)), s),
                e\<lparr>env_cache := (env_cache e)(dc_stream (ae_resolve ve vu ts iid) \<mapsto>
                   (stream_version (env_store e) (dc_stream (ae_resolve ve vu ts iid)), s))\<rparr>)"
proof -
  let ?d = "ae_resolve ve vu ts iid"
  have "transact ?d (ae_decide rp ml payer amount) RequireLoad e =
          Inr ((stream_version (env_store e) (dc_stream ?d), s),
               e\<lparr>env_cache := (env_cache e)(dc_stream ?d \<mapsto> (stream_version (env_store e) (dc_stream ?d), s)),
                 env_effects := env_effects e @ []\<rparr>)"
    by (rule transact_no_events) (use ok cur dec in \<open>simp_all add: ae_fold_composable\<close>)
  then show ?thesis by (simp add: Service_sendEmail_def)
qed

subsection \<open>Properties of the emailer\<close>

text \<open>
  C11.  Once sent, never again: when the invoice's state is \<open>EmailSent\<close>,
  \<open>sendEmail\<close> makes no call to the payer service or the mailer, writes
  nothing, and returns the current version and state.
\<close>

theorem sendEmail_once:
  assumes ok: "env_ok (ae_category ve vu) e"
    and cur: "stream_state (ae_category ve vu) (env_store e) (dc_stream (ae_resolve ve vu ts iid))
                (stream_version (env_store e) (dc_stream (ae_resolve ve vu ts iid))) = Inr s"
    and sent: "is_EmailSent s"
  shows "Service_sendEmail ve vu ts rp ml iid payer amount e =
           Inr ((stream_version (env_store e) (dc_stream (ae_resolve ve vu ts iid)), s),
                e\<lparr>env_cache := (env_cache e)(dc_stream (ae_resolve ve vu ts iid) \<mapsto>
                   (stream_version (env_store e) (dc_stream (ae_resolve ve vu ts iid)), s))\<rparr>)"
  by (rule sendEmail_no_events[OF ok cur]) (use sent in \<open>simp add: ae_decide_def\<close>)

theorem sendEmail_once_witness:
  "Service_sendEmail (\<lambda>_. True) (\<lambda>_. True) (\<lambda>x. x) (\<lambda>_. Some ''ann@example.com'') (\<lambda>_ _ _. MailSent) ''inv1'' ''p1'' 100 \<lparr>env_store = \<lparr>st_log = [(StreamName ''InvoiceAutoEmail'' ''inv1'',
          to_timeline (encode (ae_codec (\<lambda>_. True) (\<lambda>_. True)) (EmailSent \<lparr>sent_email = ''ann@example.com'', sent_payer_id = ''p1''\<rparr>) ()) 0 1)],
        st_sql_condition = False\<rparr>, env_cache = Map.empty, env_effects = ([] :: ae_effect list)\<rparr> =
   Inr ((0, Some (EmailSent \<lparr>sent_email = ''ann@example.com'', sent_payer_id = ''p1''\<rparr>)),
        \<lparr>env_store = \<lparr>st_log = [(StreamName ''InvoiceAutoEmail'' ''inv1'',
          to_timeline (encode (ae_codec (\<lambda>_. True) (\<lambda>_. True)) (EmailSent \<lparr>sent_email = ''ann@example.com'', sent_payer_id = ''p1''\<rparr>) ()) 0 1)],
        st_sql_condition = False\<rparr>, env_cache = Map.empty, env_effects = ([] :: ae_effect list)\<rparr>\<lparr>env_cache := [StreamName ''InvoiceAutoEmail'' ''inv1'' \<mapsto> (0, Some (EmailSent \<lparr>sent_email = ''ann@example.com'', sent_payer_id = ''p1''\<rparr>))]\<rparr>)"
proof -
  have dec: "\<forall>i g. try_decode (ae_codec (\<lambda>_. True) (\<lambda>_. True))
      (to_timeline (encode (ae_codec (\<lambda>_. True) (\<lambda>_. True)) (EmailSent \<lparr>sent_email = ''ann@example.com'', sent_payer_id = ''p1''\<rparr>) ()) i g) =
      Inr (Some (EmailSent \<lparr>sent_email = ''ann@example.com'', sent_payer_id = ''p1''\<rparr>))"
    using ae_codec_roundtrip[of "\<lambda>_. True" "\<lambda>_. True" "EmailSent \<lparr>sent_email = ''ann@example.com'', sent_payer_id = ''p1''\<rparr>" "()"]
    by (simp add: codec_roundtrip_def ae_valid_def)
  show ?thesis
    using sendEmail_once[where e = "\<lparr>env_store = \<lparr>st_log = [(StreamName ''InvoiceAutoEmail'' ''inv1'',
          to_timeline (encode (ae_codec (\<lambda>_. True) (\<lambda>_. True)) (EmailSent \<lparr>sent_email = ''ann@example.com'', sent_payer_id = ''p1''\<rparr>) ()) 0 1)],
        st_sql_condition = False\<rparr>, env_cache = Map.empty, env_effects = ([] :: ae_effect list)\<rparr>" and ve = "\<lambda>_. True" and vu = "\<lambda>_. True" and ts = "\<lambda>x. x"
      and rp = "\<lambda>_. Some ''ann@example.com''" and ml = "\<lambda>_ _ _. MailSent" and iid = "''inv1''" and payer = "''p1''"
      and amount = 100 and s = "Some (EmailSent \<lparr>sent_email = ''ann@example.com'', sent_payer_id = ''p1''\<rparr>)"] dec
    by (simp add: env_ok_def store_wf_def cache_coherent_def stream_state_def stream_messages_def stream_version_def
        ae_fold_def is_EmailSent_def ae_resolve_def ae_streamId_def CATEGORY_def)
qed

text \<open>
  C12.  The successful path: on an invoice whose state is not \<open>EmailSent\<close>, with a
  payer profile and a mailer that resolves, \<open>sendEmail\<close> reads the profile,
  sends one mail with the invoice subject and body, and appends one
  \<open>EmailSent\<close> event at the next version.
\<close>

theorem sendEmail_sends:
  assumes ok: "env_ok (ae_category ve vu) e"
    and cur: "stream_state (ae_category ve vu) (env_store e) (dc_stream (ae_resolve ve vu ts iid))
                (stream_version (env_store e) (dc_stream (ae_resolve ve vu ts iid))) = Inr s"
    and unsent: "\<not> is_EmailSent s" and profile: "rp payer = Some em"
    and mail: "ml em (mail_subject amount) (mail_body amount) = MailSent"
    and valid: "ve em" "vu payer"
  shows "\<exists>e'. Service_sendEmail ve vu ts rp ml iid payer amount e =
              Inr ((stream_version (env_store e) (dc_stream (ae_resolve ve vu ts iid)) + 1,
                    Some (EmailSent \<lparr>sent_email = em, sent_payer_id = payer\<rparr>)), e') \<and>
            env_effects e' = env_effects e @ [ReadProfile payer, SendMail em (mail_subject amount) (mail_body amount)] \<and>
            stream_messages (env_store e') (dc_stream (ae_resolve ve vu ts iid)) =
              committed_stream (ae_category ve vu) (env_store e) (dc_stream (ae_resolve ve vu ts iid)) ()
                [EmailSent \<lparr>sent_email = em, sent_payer_id = payer\<rparr>]"
  using sendEmail_commits[OF ok cur, of rp ml payer amount
          "[ReadProfile payer, SendMail em (mail_subject amount) (mail_body amount)]"
          "[EmailSent \<lparr>sent_email = em, sent_payer_id = payer\<rparr>]"]
    unsent profile mail valid
  by (auto simp: ae_decide_def ae_valid_def ae_fold_def)

theorem sendEmail_sends_witness:
  "\<exists>e'. Service_sendEmail (\<lambda>_. True) (\<lambda>_. True) (\<lambda>x. x) (\<lambda>_. Some ''ann@example.com'') (\<lambda>_ _ _. MailSent) ''inv1'' ''p1'' 100
          \<lparr>env_store = \<lparr>st_log = [], st_sql_condition = False\<rparr>, env_cache = Map.empty, env_effects = ([] :: ae_effect list)\<rparr> = Inr ((0, Some (EmailSent \<lparr>sent_email = ''ann@example.com'', sent_payer_id = ''p1''\<rparr>)), e') \<and>
        env_effects e' = [ReadProfile ''p1'', SendMail ''ann@example.com'' (mail_subject 100) (mail_body 100)] \<and>
        stream_messages (env_store e') (StreamName ''InvoiceAutoEmail'' ''inv1'') =
          committed_stream (ae_category (\<lambda>_. True) (\<lambda>_. True)) \<lparr>st_log = [], st_sql_condition = False\<rparr>
            (StreamName ''InvoiceAutoEmail'' ''inv1'') () [EmailSent \<lparr>sent_email = ''ann@example.com'', sent_payer_id = ''p1''\<rparr>]"
  using sendEmail_sends[where e = "\<lparr>env_store = \<lparr>st_log = [], st_sql_condition = False\<rparr>, env_cache = Map.empty, env_effects = ([] :: ae_effect list)\<rparr>" and ve = "\<lambda>_. True" and vu = "\<lambda>_. True" and ts = "\<lambda>x. x"
      and rp = "\<lambda>_. Some ''ann@example.com''" and ml = "\<lambda>_ _ _. MailSent" and iid = "''inv1''" and payer = "''p1''"
      and amount = 100 and s = None and em = "''ann@example.com''"]
  by (simp add: ae_fold_def ae_initial_def is_EmailSent_def ae_resolve_def ae_streamId_def CATEGORY_def stream_version_def stream_messages_def)

text \<open>
  C13.  A missing payer profile: \<open>sendEmail\<close> sends no mail and appends
  \<open>EmailSendingFailed\<close> with the reason \<open>Payer not found\<close>.
\<close>

theorem sendEmail_payer_not_found:
  assumes ok: "env_ok (ae_category ve vu) e"
    and cur: "stream_state (ae_category ve vu) (env_store e) (dc_stream (ae_resolve ve vu ts iid))
                (stream_version (env_store e) (dc_stream (ae_resolve ve vu ts iid))) = Inr s"
    and unsent: "\<not> is_EmailSent s" and profile: "rp payer = None" and valid: "vu payer"
  shows "\<exists>e'. Service_sendEmail ve vu ts rp ml iid payer amount e =
              Inr ((stream_version (env_store e) (dc_stream (ae_resolve ve vu ts iid)) + 1,
                    Some (EmailSendingFailed \<lparr>fail_payer_id = payer, fail_reason = ''Payer not found''\<rparr>)), e') \<and>
            env_effects e' = env_effects e @ [ReadProfile payer] \<and>
            stream_messages (env_store e') (dc_stream (ae_resolve ve vu ts iid)) =
              committed_stream (ae_category ve vu) (env_store e) (dc_stream (ae_resolve ve vu ts iid)) ()
                [EmailSendingFailed \<lparr>fail_payer_id = payer, fail_reason = ''Payer not found''\<rparr>]"
  using sendEmail_commits[OF ok cur, of rp ml payer amount "[ReadProfile payer]"
          "[EmailSendingFailed \<lparr>fail_payer_id = payer, fail_reason = ''Payer not found''\<rparr>]"]
    unsent profile valid
  by (auto simp: ae_decide_def ae_valid_def ae_fold_def)

theorem sendEmail_payer_not_found_witness:
  "\<exists>e'. Service_sendEmail (\<lambda>_. True) (\<lambda>_. True) (\<lambda>x. x) (\<lambda>_. None) (\<lambda>_ _ _. MailSent) ''inv1'' ''p1'' 100
          \<lparr>env_store = \<lparr>st_log = [], st_sql_condition = False\<rparr>, env_cache = Map.empty, env_effects = ([] :: ae_effect list)\<rparr> = Inr ((0, Some (EmailSendingFailed \<lparr>fail_payer_id = ''p1'', fail_reason = ''Payer not found''\<rparr>)), e') \<and>
        env_effects e' = [ReadProfile ''p1''] \<and>
        stream_messages (env_store e') (StreamName ''InvoiceAutoEmail'' ''inv1'') =
          committed_stream (ae_category (\<lambda>_. True) (\<lambda>_. True)) \<lparr>st_log = [], st_sql_condition = False\<rparr>
            (StreamName ''InvoiceAutoEmail'' ''inv1'') ()
            [EmailSendingFailed \<lparr>fail_payer_id = ''p1'', fail_reason = ''Payer not found''\<rparr>]"
  using sendEmail_payer_not_found[where e = "\<lparr>env_store = \<lparr>st_log = [], st_sql_condition = False\<rparr>, env_cache = Map.empty, env_effects = ([] :: ae_effect list)\<rparr>" and ve = "\<lambda>_. True" and vu = "\<lambda>_. True" and ts = "\<lambda>x. x"
      and rp = "\<lambda>_. None" and ml = "\<lambda>_ _ _. MailSent" and iid = "''inv1''" and payer = "''p1''"
      and amount = 100 and s = None]
  by (simp add: ae_fold_def ae_initial_def is_EmailSent_def ae_resolve_def ae_streamId_def CATEGORY_def stream_version_def stream_messages_def)

text \<open>
  C14.  A throwing mailer: the failure is caught and recorded as
  \<open>EmailSendingFailed\<close> whose reason is the error's message, or
  \<open>Unknown failure\<close> when it has none.
\<close>

theorem sendEmail_mail_fails:
  assumes ok: "env_ok (ae_category ve vu) e"
    and cur: "stream_state (ae_category ve vu) (env_store e) (dc_stream (ae_resolve ve vu ts iid))
                (stream_version (env_store e) (dc_stream (ae_resolve ve vu ts iid))) = Inr s"
    and unsent: "\<not> is_EmailSent s" and profile: "rp payer = Some em"
    and mail: "ml em (mail_subject amount) (mail_body amount) = MailThrew msg" and valid: "vu payer"
  shows "\<exists>e'. Service_sendEmail ve vu ts rp ml iid payer amount e =
              Inr ((stream_version (env_store e) (dc_stream (ae_resolve ve vu ts iid)) + 1,
                    Some (EmailSendingFailed \<lparr>fail_payer_id = payer,
                      fail_reason = (case msg of None \<Rightarrow> ''Unknown failure'' | Some m \<Rightarrow> m)\<rparr>)), e') \<and>
            env_effects e' = env_effects e @ [ReadProfile payer, SendMail em (mail_subject amount) (mail_body amount)]"
  using sendEmail_commits[OF ok cur, of rp ml payer amount
          "[ReadProfile payer, SendMail em (mail_subject amount) (mail_body amount)]"
          "[EmailSendingFailed \<lparr>fail_payer_id = payer, fail_reason = (case msg of None \<Rightarrow> ''Unknown failure'' | Some m \<Rightarrow> m)\<rparr>]"]
    unsent profile mail valid
  by (auto simp: ae_decide_def ae_valid_def ae_fold_def)

theorem sendEmail_mail_fails_witness:
  "\<exists>e'. Service_sendEmail (\<lambda>_. True) (\<lambda>_. True) (\<lambda>x. x) (\<lambda>_. Some ''ann@example.com'') (\<lambda>_ _ _. MailThrew None) ''inv1'' ''p1'' 100
          \<lparr>env_store = \<lparr>st_log = [], st_sql_condition = False\<rparr>, env_cache = Map.empty, env_effects = ([] :: ae_effect list)\<rparr> = Inr ((0, Some (EmailSendingFailed \<lparr>fail_payer_id = ''p1'', fail_reason = ''Unknown failure''\<rparr>)), e') \<and>
        env_effects e' = [ReadProfile ''p1'', SendMail ''ann@example.com'' (mail_subject 100) (mail_body 100)]"
  using sendEmail_mail_fails[where e = "\<lparr>env_store = \<lparr>st_log = [], st_sql_condition = False\<rparr>, env_cache = Map.empty, env_effects = ([] :: ae_effect list)\<rparr>" and ve = "\<lambda>_. True" and vu = "\<lambda>_. True" and ts = "\<lambda>x. x"
      and rp = "\<lambda>_. Some ''ann@example.com''" and ml = "\<lambda>_ _ _. MailThrew None" and iid = "''inv1''" and payer = "''p1''"
      and amount = 100 and s = None and em = "''ann@example.com''" and msg = None]
  by (simp add: ae_fold_def ae_initial_def is_EmailSent_def ae_resolve_def ae_streamId_def CATEGORY_def stream_version_def stream_messages_def)

text \<open>
  C15.  The codec skips an event of a type the upcast mapping does not name (the
  decoder returns no event rather than throwing), provided its payload parses.
\<close>

theorem ae_codec_skips_unknown:
  assumes ty: "ev_type ev \<notin> {''EmailSent'', ''EmailSendingFailed''}"
    and js: "\<And>t. ev_data ev = Some t \<Longrightarrow> t \<noteq> [] \<Longrightarrow> json_parse t \<noteq> None"
  shows "try_decode (ae_codec is_email is_uuid) ev = Inr None"
  using ty js
  by (auto simp: ae_codec_def upcast_codec_def json_codec_def JSON_parse_def upcast_body_def ae_mapping_def
      split: option.splits)

theorem ae_codec_skips_unknown_witness:
  "try_decode (ae_codec (\<lambda>_. True) (\<lambda>_. True))
     \<lparr>ev_id = None, ev_type = ''EmailBounced'', ev_data = Some (stringify (JObj [(''to'', JStr ''ann'')])),
      ev_meta = None, ev_index = 0, ev_global = 1\<rparr> = Inr None"
  by (rule ae_codec_skips_unknown) (simp_all add: json_parse_stringify del: stringify.simps)

text \<open>
  C16.  The codec rejects an \<open>EmailSent\<close> event whose payload the zod schema
  refuses, with an upcast validation error naming the type.
\<close>

theorem ae_codec_rejects_invalid:
  assumes ty: "ev_type ev = ''EmailSent''" and d: "ev_data ev = Some (stringify j)" and wf: "json_wf j"
    and bad: "EmailSentSchema_parse is_email is_uuid (Some j) = None"
  shows "try_decode (ae_codec is_email is_uuid) ev = Inl (UpcastValidationError ''EmailSent'')"
  using ty d bad JSON_parse_stringify[OF wf]
  by (simp add: ae_codec_def upcast_codec_def json_codec_def upcast_body_def ae_mapping_def)

theorem ae_codec_rejects_invalid_witness:
  "try_decode (ae_codec (\<lambda>em. CHR ''@'' \<in> set em) (\<lambda>_. True))
     \<lparr>ev_id = None, ev_type = ''EmailSent'',
      ev_data = Some (stringify (JObj [(''email'', JStr ''nobody''), (''payer_id'', JStr ''p1'')])),
      ev_meta = None, ev_index = 0, ev_global = 1\<rparr> = Inl (UpcastValidationError ''EmailSent'')"
  by (rule ae_codec_rejects_invalid[where j = "JObj [(''email'', JStr ''nobody''), (''payer_id'', JStr ''p1'')]"])
     (simp_all add: EmailSentSchema_parse_def json_string_field_def)

text \<open>
  C17.  Redelivery: when the handler runs twice, one after the other, on the same
  \<open>InvoiceRaised\<close> event of a fresh invoice, the mail is sent once and the second
  run writes nothing.
\<close>

theorem handler_redelivery_sends_once:
  assumes ok: "env_ok (ae_category ve vu) e"
    and cur: "stream_state (ae_category ve vu) (env_store e) (dc_stream (ae_resolve ve vu ts iid))
                (stream_version (env_store e) (dc_stream (ae_resolve ve vu ts iid))) = Inr s"
    and unsent: "\<not> is_EmailSent s"
    and m: "tryMatch stream = Some iid" and ne: "iid \<noteq> []"
    and d: "tryDecode (case events of [] \<Rightarrow> None | ev # _ \<Rightarrow> Some ev) = Inr (Some (InvoiceRaised payer amount))"
    and profile: "rp payer = Some em" and mail: "ml em (mail_subject amount) (mail_body amount) = MailSent"
    and valid: "ve em" "vu payer"
  shows "\<exists>e1 e2. createHandler ve vu ts rp ml tryMatch tryDecode stream events e = Inr e1 \<and>
                 createHandler ve vu ts rp ml tryMatch tryDecode stream events e1 = Inr e2 \<and>
                 env_effects e2 = env_effects e @ [ReadProfile payer, SendMail em (mail_subject amount) (mail_body amount)] \<and>
                 env_store e2 = env_store e1"
proof -
  let ?sn = "dc_stream (ae_resolve ve vu ts iid)"
  let ?ev = "EmailSent \<lparr>sent_email = em, sent_payer_id = payer\<rparr>"
  have dec: "ae_decide rp ml payer amount s =
               ([ReadProfile payer, SendMail em (mail_subject amount) (mail_body amount)], [?ev])"
    using unsent profile mail by (simp add: ae_decide_def)
  from sendEmail_current[OF ok cur dec] valid obtain e1 v1 where
    r1: "Service_sendEmail ve vu ts rp ml iid payer amount e = Inr ((v1, Some ?ev), e1)"
    and ok1: "env_ok (ae_category ve vu) e1"
    and eff1: "env_effects e1 = env_effects e @ [ReadProfile payer, SendMail em (mail_subject amount) (mail_body amount)]"
    and cur1: "stream_state (ae_category ve vu) (env_store e1) ?sn (stream_version (env_store e1) ?sn) = Inr (Some ?ev)"
    by (auto simp: ae_valid_def ae_fold_def)
  have r2: "Service_sendEmail ve vu ts rp ml iid payer amount e1 =
              Inr ((stream_version (env_store e1) ?sn, Some ?ev),
                   e1\<lparr>env_cache := (env_cache e1)(?sn \<mapsto> (stream_version (env_store e1) ?sn, Some ?ev))\<rparr>)"
    by (rule sendEmail_no_events[OF ok1 cur1]) (simp add: ae_decide_def is_EmailSent_def)
  show ?thesis
    using r1 r2 eff1 m ne d by (simp add: createHandler_def)
qed

theorem handler_redelivery_sends_once_witness:
  "\<exists>e1 e2.
     createHandler (\<lambda>_. True) (\<lambda>_. True) (\<lambda>x. x) (\<lambda>_. Some ''ann@example.com'') (\<lambda>_ _ _. MailSent)
       (\<lambda>st. if st = ''Invoice-inv1'' then Some ''inv1'' else None) (\<lambda>_. Inr (Some (InvoiceRaised ''p1'' 100)))
       ''Invoice-inv1'' [\<lparr>ev_id = None, ev_type = ''InvoiceRaised'', ev_data = Some ''{}'', ev_meta = None, ev_index = 0, ev_global = 1\<rparr>]
       \<lparr>env_store = \<lparr>st_log = [], st_sql_condition = False\<rparr>, env_cache = Map.empty, env_effects = ([] :: ae_effect list)\<rparr> = Inr e1 \<and>
     createHandler (\<lambda>_. True) (\<lambda>_. True) (\<lambda>x. x) (\<lambda>_. Some ''ann@example.com'') (\<lambda>_ _ _. MailSent)
       (\<lambda>st. if st = ''Invoice-inv1'' then Some ''inv1'' else None) (\<lambda>_. Inr (Some (InvoiceRaised ''p1'' 100)))
       ''Invoice-inv1'' [\<lparr>ev_id = None, ev_type = ''InvoiceRaised'', ev_data = Some ''{}'', ev_meta = None, ev_index = 0, ev_global = 1\<rparr>]
       e1 = Inr e2 \<and>
     env_effects e2 = [ReadProfile ''p1'', SendMail ''ann@example.com'' (mail_subject 100) (mail_body 100)] \<and>
     env_store e2 = env_store e1"
  using handler_redelivery_sends_once[where e = "\<lparr>env_store = \<lparr>st_log = [], st_sql_condition = False\<rparr>, env_cache = Map.empty, env_effects = ([] :: ae_effect list)\<rparr>" and ve = "\<lambda>_. True" and vu = "\<lambda>_. True" and ts = "\<lambda>x. x"
      and rp = "\<lambda>_. Some ''ann@example.com''" and ml = "\<lambda>_ _ _. MailSent" and iid = "''inv1''" and payer = "''p1''"
      and amount = 100 and s = None and em = "''ann@example.com''"
      and tryMatch = "\<lambda>st. if st = ''Invoice-inv1'' then Some ''inv1'' else None"
      and tryDecode = "\<lambda>_. Inr (Some (InvoiceRaised ''p1'' 100))" and stream = "''Invoice-inv1''"
      and events = "[\<lparr>ev_id = None, ev_type = ''InvoiceRaised'', ev_data = Some ''{}'', ev_meta = None, ev_index = 0, ev_global = 1\<rparr>]"]
  by (simp add: ae_fold_def ae_initial_def is_EmailSent_def)

end
