(* ===== verification/ContactPreferences.thy ===== *)
theory ContactPreferences
  imports Decider
begin

text \<open>
  The contact-preferences domain, \<^verbatim>\<open>apps/store-integration/src/domain/ContactPreferences.ts\<close>:
  one stream per client (named by the SHA-256 of the client id, a library
  function that is a parameter here), one event type
  \<open>ContactPreferencesChanged\<close> carrying the e-mail and the new preferences,
  a state that is the latest preferences, a decision that emits an event only
  when the preferences change, and a service whose \<open>update\<close>, \<open>read\<close> and
  \<open>readStale\<close> go through the Decider.

  The codec is \<open>Codec.json<Event>()\<close>: the JSON codec, with the TypeScript cast
  \<open>as Event\<close> modelled as reading the event back from its JSON shape
  (\<open>cp_of_json\<close>; an event of another shape is outside the model, the stream is
  written by this codec only).  The fold keeps the last event, so it is
  composable and equal to the full replay; \<open>isOrigin\<close> says every event is a
  starting point, which is sound because the state after an event does not
  depend on what came before it.
\<close>

subsection \<open>Identifiers and stream\<close>

type_synonym ClientId = string

definition ClientId_parse :: "string \<Rightarrow> ClientId" where
  "ClientId_parse x = x"

definition Category :: string where
  "Category = ''ContactPreferences''"

text \<open>\<open>ClientId.toStreamId\<close> is the hex SHA-256 of the id; \<open>sha256_hex\<close> is that library function.\<close>

definition ClientId_toStreamId :: "(string \<Rightarrow> string) \<Rightarrow> ClientId \<Rightarrow> string" where
  "ClientId_toStreamId sha256_hex x = sha256_hex x"

definition streamId :: "(string \<Rightarrow> string) \<Rightarrow> ClientId \<Rightarrow> string" where
  "streamId sha256_hex x = ClientId_toStreamId sha256_hex x"

subsection \<open>Data, events, state\<close>

record preferences =
  manyPromotions :: bool
  littlePromotions :: bool
  productReview :: bool
  quickSurveys :: bool

record cp_value =
  value_email :: string
  value_preferences :: preferences

datatype cp_event = ContactPreferencesChanged cp_value

text \<open>The JSON shape of an event as the code builds it, and the cast back.\<close>

definition preferences_json :: "preferences \<Rightarrow> json" where
  "preferences_json p =
     JObj [(''manyPromotions'', JBool (manyPromotions p)), (''littlePromotions'', JBool (littlePromotions p)),
           (''productReview'', JBool (productReview p)), (''quickSurveys'', JBool (quickSurveys p))]"

definition cp_shape :: "cp_event \<Rightarrow> json stream_event" where
  "cp_shape e =
     (case e of ContactPreferencesChanged v \<Rightarrow>
        \<lparr>ev_id = None, ev_type = ''ContactPreferencesChanged'',
         ev_data = Some (JObj [(''email'', JStr (value_email v)), (''preferences'', preferences_json (value_preferences v))]),
         ev_meta = None\<rparr>)"

definition json_bool_field :: "(string \<times> json) list \<Rightarrow> string \<Rightarrow> bool option" where
  "json_bool_field kvs k = (case map_of kvs k of Some (JBool b) \<Rightarrow> Some b | _ \<Rightarrow> None)"

definition preferences_of_json :: "json \<Rightarrow> preferences option" where
  "preferences_of_json j =
     (case j of
        JObj kvs \<Rightarrow>
          (case (json_bool_field kvs ''manyPromotions'', json_bool_field kvs ''littlePromotions'',
                 json_bool_field kvs ''productReview'', json_bool_field kvs ''quickSurveys'') of
             (Some a, Some b, Some c, Some d) \<Rightarrow>
               Some \<lparr>manyPromotions = a, littlePromotions = b, productReview = c, quickSurveys = d\<rparr>
           | _ \<Rightarrow> None)
      | _ \<Rightarrow> None)"

definition cp_of_json :: "json stream_event \<Rightarrow> cp_event option" where
  "cp_of_json raw =
     (if ev_type raw \<noteq> ''ContactPreferencesChanged'' then None
      else case ev_data raw of
             Some (JObj kvs) \<Rightarrow>
               (case (map_of kvs ''email'', map_of kvs ''preferences'') of
                  (Some (JStr em), Some p) \<Rightarrow>
                    map_option (\<lambda>pr. ContactPreferencesChanged \<lparr>value_email = em, value_preferences = pr\<rparr>)
                      (preferences_of_json p)
                | _ \<Rightarrow> None)
           | _ \<Rightarrow> None)"

text \<open>\<open>codec = Codec.json<Event>()\<close> (line 24); the context is \<open>null\<close>.\<close>

definition cp_codec :: "(cp_event, unit, string) codec" where
  "cp_codec = upcast_codec (json_codec (\<lambda>_. None)) (\<lambda>raw. Inr (cp_of_json raw)) cp_shape"

definition cp_initial :: preferences where
  "cp_initial = \<lparr>manyPromotions = False, littlePromotions = False, productReview = False, quickSurveys = False\<rparr>"

fun cp_evolve :: "preferences \<Rightarrow> cp_event \<Rightarrow> preferences" where
  "cp_evolve s (ContactPreferencesChanged v) = value_preferences v"

definition cp_fold :: "preferences \<Rightarrow> cp_event list \<Rightarrow> preferences" where
  "cp_fold s es = (if es = [] then s else cp_evolve s (last es))"

definition isOrigin :: "cp_event \<Rightarrow> bool" where
  "isOrigin e = True"

definition transmute :: "cp_event list \<Rightarrow> preferences \<Rightarrow> cp_event list \<times> cp_event list" where
  "transmute events state = ([], events)"

subsection \<open>Decision and service\<close>

text \<open>\<open>Decide.update\<close>: nothing to do when the preferences are the current ones.\<close>

definition Decide_update :: "cp_value \<Rightarrow> preferences \<Rightarrow> cp_event list" where
  "Decide_update value state =
     (if value_preferences value = state then [] else [ContactPreferencesChanged value])"

definition cp_category :: "(cp_event, preferences, unit, string) category" where
  "cp_category = \<lparr>cat_name = Category, cat_codec = cp_codec, cat_fold = cp_fold, cat_initial = cp_initial\<rparr>"

text \<open>
  \<open>Service.create\<close>: the decider of a client's stream, with the engine's
  default of three attempts.
\<close>

definition cp_resolve :: "(string \<Rightarrow> string) \<Rightarrow> ClientId \<Rightarrow> (cp_event, preferences, unit, string) decider" where
  "cp_resolve sha256_hex clientId =
     \<lparr>dc_category = cp_category, dc_stream = StreamName Category (streamId sha256_hex clientId),
      dc_context = (), dc_max_attempts = 3\<rparr>"

definition Service_update ::
  "(string \<Rightarrow> string) \<Rightarrow> ClientId \<Rightarrow> preferences \<Rightarrow> (preferences, string, 'x) env
   \<Rightarrow> error \<times> (preferences, string, 'x) env + (version \<times> preferences) \<times> (preferences, string, 'x) env" where
  "Service_update sha256_hex email value e =
     transact (cp_resolve sha256_hex email)
       (\<lambda>s. ([], Decide_update \<lparr>value_email = email, value_preferences = value\<rparr> s)) RequireLoad e"

definition Service_read ::
  "(string \<Rightarrow> string) \<Rightarrow> ClientId \<Rightarrow> (preferences, string, 'x) env \<Rightarrow> error + preferences \<times> (preferences, string, 'x) env" where
  "Service_read sha256_hex email e = query (cp_resolve sha256_hex email) (\<lambda>x. x) RequireLoad e"

definition Service_readStale ::
  "(string \<Rightarrow> string) \<Rightarrow> ClientId \<Rightarrow> (preferences, string, 'x) env \<Rightarrow> error + preferences \<times> (preferences, string, 'x) env" where
  "Service_readStale sha256_hex email e = query (cp_resolve sha256_hex email) (\<lambda>x. x) AnyCachedValue e"

subsection \<open>Lemmas: fold, codec, service\<close>

lemma cp_evolve_const: "cp_evolve s e = cp_evolve s' e"
  by (cases e) simp

lemma cp_fold_composable: "composable cp_fold"
  using last_event_fold_composable[of cp_evolve, OF cp_evolve_const]
  by (simp add: cp_fold_def[abs_def])

lemma preferences_of_json_inv [simp]: "preferences_of_json (preferences_json p) = Some p"
  by (simp add: preferences_of_json_def preferences_json_def json_bool_field_def)

lemma cp_of_json_shape: "cp_of_json (cp_shape e) = Some e"
  by (cases e) (simp add: cp_of_json_def cp_shape_def)

lemma cp_codec_roundtrip: "codec_roundtrip cp_codec e ctx"
  unfolding cp_codec_def
proof (rule upcast_codec_roundtrip)
  show "try_decode (json_codec (\<lambda>_::unit. None)) (to_timeline (encode (json_codec (\<lambda>_::unit. None)) (cp_shape e) ctx) i g) =
        Inr (Some (cp_shape e))" for i g
  proof (cases e)
    case (ContactPreferencesChanged v)
    have "try_decode (json_codec (\<lambda>_::unit. None)) (to_timeline (encode (json_codec (\<lambda>_::unit. None)) (cp_shape e) ctx) i g) =
          Inr (Some \<lparr>ev_id = None, ev_type = ev_type (cp_shape e), ev_data = ev_data (cp_shape e), ev_meta = None\<rparr>)"
      by (rule json_codec_roundtrip) (simp add: ContactPreferencesChanged cp_shape_def preferences_json_def)
    then show ?thesis by (simp add: ContactPreferencesChanged cp_shape_def)
  qed
  show "Inr (cp_of_json (cp_shape e)) = Inr (Some e)" by (simp add: cp_of_json_shape)
qed

lemma cp_resolve_sel [simp]:
  "dc_category (cp_resolve h x) = cp_category" "dc_context (cp_resolve h x) = ()"
  "dc_max_attempts (cp_resolve h x) = 3"
  by (simp_all add: cp_resolve_def)

lemma cp_category_sel [simp]:
  "cat_fold cp_category = cp_fold" "cat_codec cp_category = cp_codec" "cat_initial cp_category = cp_initial"
  by (simp_all add: cp_category_def)

lemma cp_fold_Decide_update: "(if Decide_update v s = [] then s else cp_fold s (Decide_update v s)) = value_preferences v"
  by (simp add: Decide_update_def cp_fold_def)

lemma Service_update_commits:
  assumes ok: "env_ok cp_category e"
    and cur: "stream_state cp_category (env_store e) (dc_stream (cp_resolve h x)) (stream_version (env_store e) (dc_stream (cp_resolve h x))) = Inr s"
  shows "\<exists>e'. Service_update h x p e =
              Inr ((stream_version (env_store e) (dc_stream (cp_resolve h x)) + (if p = s then 0 else 1), p), e') \<and>
            env_ok cp_category e' \<and> env_effects e' = env_effects e \<and>
            stream_messages (env_store e') (dc_stream (cp_resolve h x)) =
              committed_stream cp_category (env_store e) (dc_stream (cp_resolve h x)) ()
                (Decide_update \<lparr>value_email = x, value_preferences = p\<rparr> s)"
proof -
  let ?v = "\<lparr>value_email = x, value_preferences = p\<rparr>"
  let ?evs = "Decide_update ?v s"
  let ?V = "stream_version (env_store e) (dc_stream (cp_resolve h x))"
  let ?d = "cp_resolve h x"
  have "\<exists>e'. transact ?d (\<lambda>s. ([], Decide_update ?v s)) RequireLoad e =
              Inr ((?V + int (length ?evs), if ?evs = [] then s else cat_fold (dc_category ?d) s ?evs), e') \<and>
            env_ok (dc_category ?d) e' \<and> env_effects e' = env_effects e @ [] \<and>
            stream_messages (env_store e') (dc_stream ?d) =
              committed_stream (dc_category ?d) (env_store e) (dc_stream ?d) (dc_context ?d) ?evs"
    by (rule transact_commits_current) (use ok cur in \<open>simp_all add: cp_fold_composable cp_codec_roundtrip\<close>)
  then have "\<exists>e'. transact ?d (\<lambda>s. ([], Decide_update ?v s)) RequireLoad e =
              Inr ((?V + int (length ?evs), if ?evs = [] then s else cp_fold s ?evs), e') \<and>
            env_ok cp_category e' \<and> env_effects e' = env_effects e \<and>
            stream_messages (env_store e') (dc_stream ?d) =
              committed_stream cp_category (env_store e) (dc_stream ?d) () ?evs"
    by (simp only: cp_resolve_sel cp_category_sel append_Nil2)
  moreover have "int (length ?evs) = (if p = s then 0 else 1)" by (simp add: Decide_update_def)
  moreover have "(if ?evs = [] then s else cp_fold s ?evs) = p" using cp_fold_Decide_update[of ?v s] by simp
  ultimately show ?thesis by (simp add: Service_update_def)
qed

lemma Service_update_current:
  assumes ok: "env_ok cp_category e"
    and cur: "stream_state cp_category (env_store e) (dc_stream (cp_resolve h x)) (stream_version (env_store e) (dc_stream (cp_resolve h x))) = Inr s"
    and upd: "Service_update h x p e = Inr (r, e')"
  shows "env_ok cp_category e' \<and> env_effects e' = env_effects e \<and>
         r = (stream_version (env_store e') (dc_stream (cp_resolve h x)), p) \<and>
         stream_state cp_category (env_store e') (dc_stream (cp_resolve h x))
           (stream_version (env_store e') (dc_stream (cp_resolve h x))) = Inr p"
proof -
  let ?sn = "dc_stream (cp_resolve h x)"
  let ?evs = "Decide_update \<lparr>value_email = x, value_preferences = p\<rparr> s"
  from Service_update_commits[OF ok cur, of p] upd
  have ok': "env_ok cp_category e'" and eff: "env_effects e' = env_effects e"
    and r: "r = (stream_version (env_store e) ?sn + (if p = s then 0 else 1), p)"
    and sm: "stream_messages (env_store e') ?sn = committed_stream cp_category (env_store e) ?sn () ?evs"
    by auto
  have len: "int (length ?evs) = (if p = s then 0 else 1)" by (simp add: Decide_update_def)
  have ifeq: "(if ?evs = [] then s else cp_fold s ?evs) = p"
    using cp_fold_Decide_update[of "\<lparr>value_email = x, value_preferences = p\<rparr>" s] by simp
  have wf: "store_wf (env_store e)" "store_wf (env_store e')" using ok ok' by (simp_all add: env_ok_def)
  have comp: "composable (cat_fold cp_category)" by (simp add: cp_fold_composable)
  have rt: "\<And>ev. ev \<in> set ?evs \<Longrightarrow> codec_roundtrip (cat_codec cp_category) ev ()"
    by (simp add: cp_codec_roundtrip)
  have st: "stream_version (env_store e') ?sn = stream_version (env_store e) ?sn + (if p = s then 0 else 1) \<and>
            stream_state cp_category (env_store e') ?sn (stream_version (env_store e') ?sn) = Inr p"
    using stream_state_after_commit[OF wf comp rt cur sm] unfolding cp_category_sel len ifeq .
  show ?thesis
  proof (intro conjI)
    show "r = (stream_version (env_store e') ?sn, p)" using r st by simp
  qed (use ok' eff st in auto)
qed

subsection \<open>Properties of the service\<close>

text \<open>
  C1.  Read after update: on a well-formed store and cache, \<open>Service.update\<close>
  commits and returns the requested preferences, and a following
  \<open>Service.read\<close> (a fresh load) returns exactly those preferences.
\<close>

theorem update_then_read:
  assumes ok: "env_ok cp_category e"
    and cur: "stream_state cp_category (env_store e) (dc_stream (cp_resolve h x)) (stream_version (env_store e) (dc_stream (cp_resolve h x))) = Inr s"
  shows "\<exists>v e' e''. Service_update h x p e = Inr ((v, p), e') \<and> Service_read h x e' = Inr (p, e'')"
proof -
  from Service_update_commits[OF ok cur, of p] obtain r e' where upd: "Service_update h x p e = Inr (r, e')"
    by blast
  from Service_update_current[OF ok cur upd] have ok': "env_ok cp_category e'"
    and r: "r = (stream_version (env_store e') (dc_stream (cp_resolve h x)), p)"
    and cur': "stream_state cp_category (env_store e') (dc_stream (cp_resolve h x))
                 (stream_version (env_store e') (dc_stream (cp_resolve h x))) = Inr p"
    by auto
  have "Service_read h x e' =
          Inr (p, e'\<lparr>env_cache := (env_cache e')(dc_stream (cp_resolve h x) \<mapsto>
                   (stream_version (env_store e') (dc_stream (cp_resolve h x)), p))\<rparr>)"
    unfolding Service_read_def
    by (rule query_fresh[where proj = "\<lambda>x. x", simplified]) (use ok' cur' in \<open>simp_all add: cp_fold_composable\<close>)
  with upd r show ?thesis by blast
qed

theorem update_then_read_witness:
  "\<exists>v e' e''. Service_update (\<lambda>x. x) ''alice'' \<lparr>manyPromotions = True, littlePromotions = False, productReview = True, quickSurveys = False\<rparr>
       \<lparr>env_store = \<lparr>st_log = [], st_sql_condition = False\<rparr>, env_cache = Map.empty, env_effects = ([] :: unit list)\<rparr> =
         Inr ((v, \<lparr>manyPromotions = True, littlePromotions = False, productReview = True, quickSurveys = False\<rparr>), e') \<and>
     Service_read (\<lambda>x. x) ''alice'' e' = Inr (\<lparr>manyPromotions = True, littlePromotions = False, productReview = True, quickSurveys = False\<rparr>, e'')"
  using update_then_read[where e = "\<lparr>env_store = \<lparr>st_log = [], st_sql_condition = False\<rparr>, env_cache = Map.empty, env_effects = ([] :: unit list)\<rparr>"
      and h = "\<lambda>x. x" and x = "''alice''" and s = cp_initial]
  by (simp add: cp_fold_def)

text \<open>
  C2.  Idempotence: repeating the same \<open>update\<close> returns the same version and
  state and leaves the store (and the effect log) untouched, because
  \<open>Decide.update\<close> decides no events on preferences that are already current.
\<close>

theorem update_idempotent:
  assumes ok: "env_ok cp_category e"
    and cur: "stream_state cp_category (env_store e) (dc_stream (cp_resolve h x)) (stream_version (env_store e) (dc_stream (cp_resolve h x))) = Inr s"
    and upd: "Service_update h x p e = Inr (r, e')"
  shows "\<exists>e''. Service_update h x p e' = Inr (r, e'') \<and> env_store e'' = env_store e' \<and> env_effects e'' = env_effects e'"
proof -
  from Service_update_current[OF ok cur upd] have ok': "env_ok cp_category e'"
    and r: "r = (stream_version (env_store e') (dc_stream (cp_resolve h x)), p)"
    and cur': "stream_state cp_category (env_store e') (dc_stream (cp_resolve h x))
                 (stream_version (env_store e') (dc_stream (cp_resolve h x))) = Inr p"
    by auto
  have "transact (cp_resolve h x) (\<lambda>s. ([], Decide_update \<lparr>value_email = x, value_preferences = p\<rparr> s)) RequireLoad e' =
          Inr ((stream_version (env_store e') (dc_stream (cp_resolve h x)), p),
               e'\<lparr>env_cache := (env_cache e')(dc_stream (cp_resolve h x) \<mapsto> (stream_version (env_store e') (dc_stream (cp_resolve h x)), p)),
                  env_effects := env_effects e' @ []\<rparr>)"
    by (rule transact_no_events) (use ok' cur' in \<open>simp_all add: cp_fold_composable Decide_update_def\<close>)
  with r show ?thesis by (simp add: Service_update_def)
qed

theorem update_idempotent_witness:
  "\<exists>r e'. Service_update (\<lambda>x. x) ''alice'' \<lparr>manyPromotions = True, littlePromotions = False, productReview = True, quickSurveys = False\<rparr>
       \<lparr>env_store = \<lparr>st_log = [], st_sql_condition = False\<rparr>, env_cache = Map.empty, env_effects = ([] :: unit list)\<rparr> = Inr (r, e') \<and>
     (\<exists>e''. Service_update (\<lambda>x. x) ''alice'' \<lparr>manyPromotions = True, littlePromotions = False, productReview = True, quickSurveys = False\<rparr> e' =
              Inr (r, e'') \<and> env_store e'' = env_store e' \<and> env_effects e'' = env_effects e')"
proof -
  let ?e = "\<lparr>env_store = \<lparr>st_log = [], st_sql_condition = False\<rparr>, env_cache = Map.empty, env_effects = ([] :: unit list)\<rparr>"
  let ?p = "\<lparr>manyPromotions = True, littlePromotions = False, productReview = True, quickSurveys = False\<rparr>"
  have ok: "env_ok cp_category ?e" by simp
  have cur: "stream_state cp_category (env_store ?e) (dc_stream (cp_resolve (\<lambda>x. x) ''alice''))
               (stream_version (env_store ?e) (dc_stream (cp_resolve (\<lambda>x. x) ''alice''))) = Inr cp_initial"
    by (simp add: cp_fold_def)
  from Service_update_commits[OF ok cur, of ?p] obtain r e' where upd: "Service_update (\<lambda>x. x) ''alice'' ?p ?e = Inr (r, e')"
    by blast
  show ?thesis using upd update_idempotent[OF ok cur upd] by blast
qed


text \<open>
  C3.  What \<open>update\<close> writes: the client's stream gains exactly one
  \<open>ContactPreferencesChanged\<close> event, encoded by the category's codec and
  positioned right after the current version, when the preferences change, and
  nothing otherwise.
\<close>

theorem update_writes_change:
  assumes ok: "env_ok cp_category e"
    and cur: "stream_state cp_category (env_store e) (dc_stream (cp_resolve h x)) (stream_version (env_store e) (dc_stream (cp_resolve h x))) = Inr s"
  shows "\<exists>r e'. Service_update h x p e = Inr (r, e') \<and>
           stream_messages (env_store e') (dc_stream (cp_resolve h x)) =
             stream_messages (env_store e) (dc_stream (cp_resolve h x)) @
             (if p = s then []
              else [to_timeline (encode cp_codec (ContactPreferencesChanged \<lparr>value_email = x, value_preferences = p\<rparr>) ())
                      (stream_version (env_store e) (dc_stream (cp_resolve h x)) + 1)
                      (int (length (st_log (env_store e))) + 1)])"
  using Service_update_commits[OF ok cur, of p]
  by (auto simp: committed_stream_def Decide_update_def)

theorem update_writes_change_witness:
  "\<exists>r e'. Service_update (\<lambda>x. x) ''alice'' \<lparr>manyPromotions = True, littlePromotions = False, productReview = True, quickSurveys = False\<rparr>
       \<lparr>env_store = \<lparr>st_log = [], st_sql_condition = False\<rparr>, env_cache = Map.empty, env_effects = ([] :: unit list)\<rparr> = Inr (r, e') \<and>
     stream_messages (env_store e') (StreamName ''ContactPreferences'' ''alice'') =
       [to_timeline (encode cp_codec (ContactPreferencesChanged \<lparr>value_email = ''alice'',
          value_preferences = \<lparr>manyPromotions = True, littlePromotions = False, productReview = True, quickSurveys = False\<rparr>\<rparr>) ()) 0 1]"
  using update_writes_change[where e = "\<lparr>env_store = \<lparr>st_log = [], st_sql_condition = False\<rparr>, env_cache = Map.empty, env_effects = ([] :: unit list)\<rparr>"
      and h = "\<lambda>x. x" and x = "''alice''" and s = cp_initial
      and p = "\<lparr>manyPromotions = True, littlePromotions = False, productReview = True, quickSurveys = False\<rparr>"]
  by (simp add: cp_fold_def cp_initial_def cp_resolve_def streamId_def ClientId_toStreamId_def Category_def stream_messages_def stream_version_def)

text \<open>
  C4.  A stored payload that is not valid JSON makes \<open>update\<close> fail with the
  parse error (\<open>JSON.parse\<close> throwing inside \<open>Codec.json\<close>), before any decision
  is taken and with the environment unchanged.
\<close>

theorem update_decode_error:
  assumes ok: "env_ok cp_category e" and nc: "env_cache e (dc_stream (cp_resolve h x)) = None"
    and bad: "stream_state cp_category (env_store e) (dc_stream (cp_resolve h x)) (stream_version (env_store e) (dc_stream (cp_resolve h x))) = Inl err"
  shows "Service_update h x p e = Inl (err, e)"
proof -
  have "load cp_category (env_store e) (env_cache e) (dc_stream (cp_resolve h x)) RequireLoad = Inl err"
    using load_fresh[of "env_store e" cp_category "env_cache e" RequireLoad "dc_stream (cp_resolve h x)"] ok bad
    by (simp add: env_ok_def cp_fold_composable)
  then show ?thesis by (simp add: Service_update_def transact_def)
qed

theorem update_decode_error_witness:
  "Service_update (\<lambda>x. x) ''alice'' cp_initial
     \<lparr>env_store = \<lparr>st_log = [(StreamName ''ContactPreferences'' ''alice'',
         \<lparr>ev_id = None, ev_type = ''ContactPreferencesChanged'', ev_data = Some ''{'', ev_meta = None, ev_index = 0, ev_global = 1\<rparr>)],
        st_sql_condition = False\<rparr>,
      env_cache = Map.empty, env_effects = ([] :: unit list)\<rparr> =
   Inl (JsonParseError, \<lparr>env_store = \<lparr>st_log = [(StreamName ''ContactPreferences'' ''alice'',
         \<lparr>ev_id = None, ev_type = ''ContactPreferencesChanged'', ev_data = Some ''{'', ev_meta = None, ev_index = 0, ev_global = 1\<rparr>)],
        st_sql_condition = False\<rparr>,
      env_cache = Map.empty, env_effects = ([] :: unit list)\<rparr>)"
  apply (rule update_decode_error)
    apply (simp add: env_ok_def store_wf_def cache_coherent_def stream_messages_def)
   apply simp
  apply (simp add: stream_state_def stream_messages_def stream_version_def cp_resolve_def streamId_def ClientId_toStreamId_def Category_def
      cp_category_def cp_codec_def upcast_codec_def json_codec_def JSON_parse_def json_parse_def parse_value.simps)
  done

text \<open>
  C5.  \<open>readStale\<close> (\<open>LoadOption.AnyCachedValue\<close>) answers from the cache
  whenever the cache holds the stream, whatever the store holds: it may return
  preferences older than the latest \<open>update\<close> of another process.
\<close>

theorem readStale_cached:
  assumes "env_cache e (dc_stream (cp_resolve h x)) = Some (v, s)"
  shows "Service_readStale h x e = Inr (s, e)"
  using assms by (simp add: Service_readStale_def query_def load_def)

theorem readStale_cached_witness:
  "Service_readStale (\<lambda>x. x) ''alice''
     \<lparr>env_store = \<lparr>st_log = [], st_sql_condition = False\<rparr>,
      env_cache = [StreamName ''ContactPreferences'' ''alice'' \<mapsto> (-1, cp_initial)], env_effects = ([] :: unit list)\<rparr> =
   Inr (cp_initial, \<lparr>env_store = \<lparr>st_log = [], st_sql_condition = False\<rparr>,
      env_cache = [StreamName ''ContactPreferences'' ''alice'' \<mapsto> (-1, cp_initial)], env_effects = ([] :: unit list)\<rparr>)"
  by (rule readStale_cached) (simp add: cp_resolve_def streamId_def ClientId_toStreamId_def Category_def)

text \<open>
  C6.  The fold that keeps the last event is the full replay
  \<open>foldl evolve\<close>, so loading from a cached state and folding the rest gives
  the same state as replaying the whole stream.
\<close>

theorem cp_fold_replay: "cp_fold s es = foldl cp_evolve s es"
  unfolding cp_fold_def by (rule last_event_fold_foldl[OF cp_evolve_const])

end
