(* ===== verification/Concurrency.thy ===== *)
theory Concurrency
  imports InvoiceAutoEmailer ContactPreferences "HOL-Library.Multiset"
begin

text \<open>
  Concurrent deciders.  In a Node process several \<open>transact\<close> calls run at
  once: each is a task that loads, then runs attempts, and the tasks share
  the store, the cache and the log of external effects.  A step of a task is
  one of the operations of \<open>Decider\<close> (the load that starts a transact, or
  one attempt \<open>sync_attempt\<close>); a schedule is the sequence of task indexes
  that step.  Running one task alone is \<open>transact\<close>; interleaving tasks gives
  the behaviours the optimistic concurrency control of the store is there for.
\<close>

record ('e, 's, 'c, 'f, 'x) task =
  tk_decider :: "('e, 's, 'c, 'f) decider"
  tk_decide :: "'s \<Rightarrow> 'x list \<times> 'e list"
  tk_option :: load_option

datatype 's phase = Start | Loaded nat "version \<times> 's" | Finished "version \<times> 's" | Failed error

definition task_step ::
  "('e, 's, 'c, 'f, 'x) task \<Rightarrow> 's phase \<Rightarrow> ('s, 'f, 'x) env \<Rightarrow> ('s phase \<times> ('s, 'f, 'x) env) option" where
  "task_step t p e =
     (let d = tk_decider t
      in case p of
           Start \<Rightarrow>
             (case load (dc_category d) (env_store e) (env_cache e) (dc_stream d) (tk_option t) of
                Inl err \<Rightarrow> Some (Failed err, e)
              | Inr (vs, c) \<Rightarrow> Some (Loaded 1 vs, e\<lparr>env_cache := c\<rparr>))
         | Loaded a vs \<Rightarrow>
             (case sync_attempt d (tk_decide t) a vs e of
                (Done vs', e') \<Rightarrow> Some (Finished vs', e')
              | (Retry a' vs', e') \<Rightarrow> Some (Loaded a' vs', e')
              | (Fail err, e') \<Rightarrow> Some (Failed err, e'))
         | _ \<Rightarrow> None)"

type_synonym ('s, 'f, 'x) sys = "'s phase list \<times> ('s, 'f, 'x) env"

definition sys_step ::
  "('e, 's, 'c, 'f, 'x) task list \<Rightarrow> ('s, 'f, 'x) sys \<Rightarrow> nat \<Rightarrow> ('s, 'f, 'x) sys option" where
  "sys_step ts S i =
     (if i < length ts \<and> i < length (fst S) then
        (case task_step (ts ! i) (fst S ! i) (snd S) of
           None \<Rightarrow> None
         | Some (p', e') \<Rightarrow> Some ((fst S)[i := p'], e'))
      else None)"

fun run_sched ::
  "('e, 's, 'c, 'f, 'x) task list \<Rightarrow> nat list \<Rightarrow> ('s, 'f, 'x) sys \<Rightarrow> ('s, 'f, 'x) sys option" where
  "run_sched ts [] S = Some S"
| "run_sched ts (i # is) S = (case sys_step ts S i of None \<Rightarrow> None | Some S' \<Rightarrow> run_sched ts is S')"

inductive reach ::
  "('e, 's, 'c, 'f, 'x) task list \<Rightarrow> ('s, 'f, 'x) sys \<Rightarrow> ('s, 'f, 'x) sys \<Rightarrow> bool" for ts S0 where
  reach_refl: "reach ts S0 S0"
| reach_step: "reach ts S0 S \<Longrightarrow> sys_step ts S i = Some S' \<Longrightarrow> reach ts S0 S'"

definition tokens_ok :: "('e, 's, 'c, 'f, 'x) task list \<Rightarrow> ('e, 's, 'c, 'f) category \<Rightarrow> ('s, 'f, 'x) sys \<Rightarrow> bool" where
  "tokens_ok ts cat S \<longleftrightarrow>
     (\<forall>i < length (fst S). case fst S ! i of
        Loaded a vs \<Rightarrow> -1 \<le> fst vs \<and> fst vs \<le> stream_version (env_store (snd S)) (dc_stream (tk_decider (ts ! i))) \<and>
                       stream_state cat (env_store (snd S)) (dc_stream (tk_decider (ts ! i))) (fst vs) = Inr (snd vs)
      | _ \<Rightarrow> True)"

definition conc_inv :: "('e, 's, 'c, 'f, 'x) task list \<Rightarrow> ('e, 's, 'c, 'f) category \<Rightarrow> ('s, 'f, 'x) sys \<Rightarrow> bool" where
  "conc_inv ts cat S \<longleftrightarrow> env_ok cat (snd S) \<and> length (fst S) = length ts \<and> tokens_ok ts cat S"

text \<open>
  Progress of a task: \<open>Start\<close>, then attempts numbered from 1 up to the
  budget, then a final phase.  \<open>attempt_bound\<close> is the largest attempt number
  a task can reach (one attempt runs even with a budget of zero).
\<close>

definition attempt_bound :: "('e, 's, 'c, 'f, 'x) task \<Rightarrow> nat" where
  "attempt_bound t = max 1 (dc_max_attempts (tk_decider t))"

definition phase_rank :: "nat \<Rightarrow> 's phase \<Rightarrow> nat" where
  "phase_rank b p = (case p of Start \<Rightarrow> 0 | Loaded a vs \<Rightarrow> a | Finished vs \<Rightarrow> b + 1 | Failed err \<Rightarrow> b + 1)"

definition phase_ok :: "nat \<Rightarrow> 's phase \<Rightarrow> bool" where
  "phase_ok b p = (case p of Loaded a vs \<Rightarrow> 1 \<le> a \<and> a \<le> b | _ \<Rightarrow> True)"

text \<open>
  The tasks of the two domains: \<open>Service.update\<close> of the contact preferences
  and \<open>Service.sendEmail\<close> of the auto-emailer, each a \<open>transact\<close> with the
  default \<open>RequireLoad\<close>.
\<close>

definition cp_update_task ::
  "(string \<Rightarrow> string) \<Rightarrow> ClientId \<Rightarrow> preferences \<Rightarrow> (cp_event, preferences, unit, string, 'x) task" where
  "cp_update_task h x p =
     \<lparr>tk_decider = cp_resolve h x,
      tk_decide = \<lambda>s. ([], Decide_update \<lparr>value_email = x, value_preferences = p\<rparr> s),
      tk_option = RequireLoad\<rparr>"

definition ae_send_task ::
  "(string \<Rightarrow> bool) \<Rightarrow> (string \<Rightarrow> bool) \<Rightarrow> (string \<Rightarrow> string) \<Rightarrow> (string \<Rightarrow> string option)
   \<Rightarrow> (string \<Rightarrow> string \<Rightarrow> string \<Rightarrow> mail_result) \<Rightarrow> string \<Rightarrow> string \<Rightarrow> int
   \<Rightarrow> (ae_event, ae_state, unit, string, ae_effect) task" where
  "ae_send_task is_email is_uuid invoice_to_string readProfile mailer invoiceId payerId amount =
     \<lparr>tk_decider = ae_resolve is_email is_uuid invoice_to_string invoiceId,
      tk_decide = ae_decide readProfile mailer payerId amount, tk_option = RequireLoad\<rparr>"

declare sys_step_def [model_simps] task_step_def [model_simps]

lemma stamp_index_ge: "x \<in> set (stamp i g es) \<Longrightarrow> i \<le> ev_index x"
proof (induction es arbitrary: i g)
  case Nil
  then show ?case by simp
next
  case (Cons e es)
  show ?case
  proof (cases "x = to_timeline e i g")
    case True
    then show ?thesis by simp
  next
    case False
    then have "x \<in> set (stamp (i + 1) (g + 1) es)" using Cons.prems by simp
    then have "i + 1 \<le> ev_index x" by (rule Cons.IH)
    then show ?thesis by simp
  qed
qed

lemma stream_state_write_prefix:
  assumes w: "write_messages st sn evs v0 = Inr (v', st')" and le: "v \<le> stream_version st sn'"
  shows "stream_state cat st' sn' v = stream_state cat st sn' v"
proof (cases "sn' = sn")
  case True
  have "v0 = stream_version st sn" using w by (simp add: write_messages_Inr)
  then have "filter (\<lambda>x. ev_index x \<le> v) (stamp (v0 + 1) (int (length (st_log st)) + 1) evs) = []"
    using le True by (auto simp: filter_empty_conv dest!: stamp_index_ge)
  then show ?thesis
    using True by (simp add: stream_state_def write_messages_streams(1)[OF w])
next
  case False
  then show ?thesis by (rule stream_state_other[OF w])
qed

lemma tokens_ok_update:
  assumes tk: "tokens_ok ts cat (ps, e)"
    and grow: "\<And>sn v. -1 \<le> v \<Longrightarrow> v \<le> stream_version (env_store e) sn \<Longrightarrow>
                 v \<le> stream_version (env_store e') sn \<and>
                 stream_state cat (env_store e') sn v = stream_state cat (env_store e) sn v"
    and new: "case p' of
                Loaded a vs \<Rightarrow> -1 \<le> fst vs \<and> fst vs \<le> stream_version (env_store e') (dc_stream (tk_decider (ts ! i))) \<and>
                  stream_state cat (env_store e') (dc_stream (tk_decider (ts ! i))) (fst vs) = Inr (snd vs)
              | _ \<Rightarrow> True"
  shows "tokens_ok ts cat (ps[i := p'], e')"
  unfolding tokens_ok_def fst_conv snd_conv
proof (intro allI impI)
  fix j assume j: "j < length (ps[i := p'])"
  show "case ps[i := p'] ! j of
          Loaded a vs \<Rightarrow> -1 \<le> fst vs \<and> fst vs \<le> stream_version (env_store e') (dc_stream (tk_decider (ts ! j))) \<and>
            stream_state cat (env_store e') (dc_stream (tk_decider (ts ! j))) (fst vs) = Inr (snd vs)
        | _ \<Rightarrow> True"
  proof (cases "j = i")
    case True
    from new j show ?thesis unfolding True by simp
  next
    case False
    have old: "case ps ! j of
          Loaded a vs \<Rightarrow> -1 \<le> fst vs \<and> fst vs \<le> stream_version (env_store e) (dc_stream (tk_decider (ts ! j))) \<and>
            stream_state cat (env_store e) (dc_stream (tk_decider (ts ! j))) (fst vs) = Inr (snd vs)
        | _ \<Rightarrow> True"
      using tk j unfolding tokens_ok_def fst_conv snd_conv by simp
    show ?thesis
      using False old grow by (auto split: phase.splits)
  qed
qed

lemma write_grows:
  assumes w: "write_messages st sn evs v0 = Inr (v', st')"
    and le: "v \<le> stream_version st sn'"
  shows "v \<le> stream_version st' sn' \<and> stream_state cat st' sn' v = stream_state cat st sn' v"
  using stream_state_write_prefix[OF w le] write_messages_streams(2)[OF w, of sn'] le by (cases "sn' = sn") simp_all

lemma sync_attempt_cases:
  assumes sa: "sync_attempt d dec a vs e = (r, e')" and dec: "dec (snd vs) = (xs, evs)"
  shows "(evs = [] \<and> r = Done vs \<and> e' = e\<lparr>env_effects := env_effects e @ xs\<rparr>) \<or>
         (\<exists>vs' st' c'. append (dc_category d) (env_store e) (env_cache e) (dc_stream d) (dc_context d) vs evs = Inr (vs', st', c') \<and>
            r = Done vs' \<and> e' = e\<lparr>env_effects := env_effects e @ xs, env_store := st', env_cache := c'\<rparr>) \<or>
         (\<exists>err. r = Fail err \<and> e' = e\<lparr>env_effects := env_effects e @ xs\<rparr>) \<or>
         (\<exists>vs' c'. load (dc_category d) (env_store e) (env_cache e) (dc_stream d) RequireLoad = Inr (vs', c') \<and>
            r = Retry (Suc a) vs' \<and> e' = e\<lparr>env_effects := env_effects e @ xs, env_cache := c'\<rparr>)"
  using sa dec unfolding sync_attempt_def
  by (auto simp: Let_def split: if_splits sum.splits error.splits)

lemma sync_attempt_ok:
  assumes ok: "env_ok (dc_category d) e" and comp: "composable (cat_fold (dc_category d))"
    and rt: "\<And>ev. ev \<in> set (snd (dec (snd vs))) \<Longrightarrow> codec_roundtrip (cat_codec (dc_category d)) ev (dc_context d)"
    and tok: "stream_state (dc_category d) (env_store e) (dc_stream d) (fst vs) = Inr (snd vs)"
    and lo: "-1 \<le> fst vs" and hi: "fst vs \<le> stream_version (env_store e) (dc_stream d)"
    and sa: "sync_attempt d dec a vs e = (r, e')"
  shows "env_ok (dc_category d) e' \<and>
         (case r of
            Fail err \<Rightarrow> True
          | Done vs' \<Rightarrow> -1 \<le> fst vs' \<and> fst vs' \<le> stream_version (env_store e') (dc_stream d) \<and>
                stream_state (dc_category d) (env_store e') (dc_stream d) (fst vs') = Inr (snd vs')
          | Retry a' vs' \<Rightarrow> -1 \<le> fst vs' \<and> fst vs' \<le> stream_version (env_store e') (dc_stream d) \<and>
                stream_state (dc_category d) (env_store e') (dc_stream d) (fst vs') = Inr (snd vs'))"
proof -
  let ?cat = "dc_category d" and ?sn = "dc_stream d"
  obtain xs evs where dec: "dec (snd vs) = (xs, evs)" by fastforce
  have wf: "store_wf (env_store e)" and coh: "cache_coherent ?cat (env_store e) (env_cache e)"
    using ok by (simp_all add: env_ok_def)
  consider (empty) "evs = [] \<and> r = Done vs \<and> e' = e\<lparr>env_effects := env_effects e @ xs\<rparr>"
    | (commit) vs' st' c' where "append ?cat (env_store e) (env_cache e) ?sn (dc_context d) vs evs = Inr (vs', st', c')"
        "r = Done vs'" "e' = e\<lparr>env_effects := env_effects e @ xs, env_store := st', env_cache := c'\<rparr>"
    | (fail) err where "r = Fail err" "e' = e\<lparr>env_effects := env_effects e @ xs\<rparr>"
    | (retry) vs' c' where "load ?cat (env_store e) (env_cache e) ?sn RequireLoad = Inr (vs', c')"
        "r = Retry (Suc a) vs'" "e' = e\<lparr>env_effects := env_effects e @ xs, env_cache := c'\<rparr>"
    using sync_attempt_cases[OF sa dec] by blast
  then show ?thesis
  proof cases
    case empty
    then show ?thesis using ok tok lo hi by simp
  next
    case (commit vs' st' c')
    have rt': "\<And>ev. ev \<in> set evs \<Longrightarrow> codec_roundtrip (cat_codec ?cat) ev (dc_context d)"
      using rt dec by simp
    from append_coherent[OF wf coh comp rt' tok commit(1)]
    have wf': "store_wf st'" and coh': "cache_coherent ?cat st' c'" by simp_all
    from commit(1) have "c' ?sn = Some vs'" by (auto simp: append_Inr)
    from cache_coherent_entry[OF coh', of ?sn "fst vs'" "snd vs'"] this
    have "-1 \<le> fst vs' \<and> fst vs' \<le> stream_version st' ?sn \<and> stream_state ?cat st' ?sn (fst vs') = Inr (snd vs')"
      by simp
    with wf' coh' commit show ?thesis by (simp add: env_ok_def)
  next
    case (fail err)
    then show ?thesis using ok by simp
  next
    case (retry vs' c')
    from load_coherent[OF wf coh comp retry(1)] retry ok show ?thesis by (simp add: env_ok_def)
  qed
qed

lemma task_step_Start_inv:
  assumes ok: "env_ok cat e" and tk: "tokens_ok ts cat (ps, e)" and comp: "composable (cat_fold cat)"
    and cat: "dc_category (tk_decider (ts ! i)) = cat"
    and ts: "task_step (ts ! i) Start e = Some (p', e')"
  shows "env_ok cat e' \<and> tokens_ok ts cat (ps[i := p'], e')"
proof -
  let ?t = "ts ! i"
  let ?d = "tk_decider (ts ! i)"
  have wf: "store_wf (env_store e)" and coh: "cache_coherent cat (env_store e) (env_cache e)"
    using ok by (simp_all add: env_ok_def)
  have same: "\<And>e''. env_store e'' = env_store e \<Longrightarrow>
      (case p' of Loaded a vs \<Rightarrow> -1 \<le> fst vs \<and> fst vs \<le> stream_version (env_store e'') (dc_stream ?d) \<and>
         stream_state cat (env_store e'') (dc_stream ?d) (fst vs) = Inr (snd vs) | _ \<Rightarrow> True) \<Longrightarrow>
      tokens_ok ts cat (ps[i := p'], e'')"
    by (rule tokens_ok_update[OF tk]) simp_all
  show ?thesis
  proof (cases "load cat (env_store e) (env_cache e) (dc_stream ?d) (tk_option ?t)")
    case (Inl err)
    then have "p' = Failed err" "e' = e" using ts cat by (simp_all add: task_step_def)
    then show ?thesis using ok same[of e] by simp
  next
    case (Inr res)
    then obtain vs c where ld: "load cat (env_store e) (env_cache e) (dc_stream ?d) (tk_option ?t) = Inr (vs, c)"
      by (cases res) auto
    then have p': "p' = Loaded 1 vs" and e': "e' = e\<lparr>env_cache := c\<rparr>" using ts cat by (simp_all add: task_step_def)
    from load_coherent[OF wf coh comp ld]
    have "cache_coherent cat (env_store e) c" "-1 \<le> fst vs" "fst vs \<le> stream_version (env_store e) (dc_stream ?d)"
      "stream_state cat (env_store e) (dc_stream ?d) (fst vs) = Inr (snd vs)" by simp_all
    then show ?thesis using wf same[of e'] p' e' by (simp add: env_ok_def)
  qed
qed

lemma task_step_Loaded_inv:
  assumes ok: "env_ok cat e" and tk: "tokens_ok ts cat (ps, e)" and comp: "composable (cat_fold cat)"
    and cat: "dc_category (tk_decider (ts ! i)) = cat"
    and rt: "\<And>s ev. ev \<in> set (snd (tk_decide (ts ! i) s)) \<Longrightarrow>
               codec_roundtrip (cat_codec cat) ev (dc_context (tk_decider (ts ! i)))"
    and i: "i < length ps" and ld: "ps ! i = Loaded a vs"
    and ts: "task_step (ts ! i) (Loaded a vs) e = Some (p', e')"
  shows "env_ok cat e' \<and> tokens_ok ts cat (ps[i := p'], e')"
proof -
  let ?t = "ts ! i"
  let ?d = "tk_decider (ts ! i)"
  have tok: "-1 \<le> fst vs" "fst vs \<le> stream_version (env_store e) (dc_stream ?d)"
    "stream_state cat (env_store e) (dc_stream ?d) (fst vs) = Inr (snd vs)"
    using tk i ld unfolding tokens_ok_def by auto
  obtain r e'' where sa: "sync_attempt ?d (tk_decide ?t) a vs e = (r, e'')" by fastforce
  have e'': "e'' = e'" and p': "p' = (case r of Done vs' \<Rightarrow> Finished vs' | Retry a' vs' \<Rightarrow> Loaded a' vs' | Fail err \<Rightarrow> Failed err)"
    using ts sa by (auto simp: task_step_def split: outcome.splits)
  have rt': "\<And>ev. ev \<in> set (snd (tk_decide ?t (snd vs))) \<Longrightarrow> codec_roundtrip (cat_codec (dc_category ?d)) ev (dc_context ?d)"
    using rt cat by simp
  have sa': "sync_attempt ?d (tk_decide ?t) a vs e = (r, e')" using sa e'' by simp
  have ok': "env_ok (dc_category ?d) e" and comp': "composable (cat_fold (dc_category ?d))"
    and tok': "stream_state (dc_category ?d) (env_store e) (dc_stream ?d) (fst vs) = Inr (snd vs)"
    using ok comp tok cat by simp_all
  note res = sync_attempt_ok[OF ok' comp' rt' tok' tok(1) tok(2) sa', unfolded cat]
  have new: "case p' of Loaded a vs \<Rightarrow> -1 \<le> fst vs \<and> fst vs \<le> stream_version (env_store e') (dc_stream ?d) \<and>
       stream_state cat (env_store e') (dc_stream ?d) (fst vs) = Inr (snd vs) | _ \<Rightarrow> True"
    using res p' by (auto split: outcome.splits)
  have grow: "\<And>sn v. -1 \<le> v \<Longrightarrow> v \<le> stream_version (env_store e) sn \<Longrightarrow>
               v \<le> stream_version (env_store e') sn \<and>
               stream_state cat (env_store e') sn v = stream_state cat (env_store e) sn v"
    using sync_attempt_store[OF sa] e'' write_grows by fastforce
  have "tokens_ok ts cat (ps[i := p'], e')" by (rule tokens_ok_update[OF tk grow new])
  then show ?thesis using res by simp
qed

lemma sys_step_inv:
  assumes inv: "conc_inv ts cat S"
    and cats: "\<And>t. t \<in> set ts \<Longrightarrow> dc_category (tk_decider t) = cat"
    and comp: "composable (cat_fold cat)"
    and rt: "\<And>t s ev. t \<in> set ts \<Longrightarrow> ev \<in> set (snd (tk_decide t s)) \<Longrightarrow>
               codec_roundtrip (cat_codec cat) ev (dc_context (tk_decider t))"
    and st: "sys_step ts S i = Some S'"
  shows "conc_inv ts cat S'"
proof -
  obtain ps e where S: "S = (ps, e)" by fastforce
  from st S obtain p' e' where i: "i < length ts" "i < length ps"
    and ts: "task_step (ts ! i) (ps ! i) e = Some (p', e')" and S': "S' = (ps[i := p'], e')"
    by (auto simp: sys_step_def split: if_splits option.splits)
  have cat: "dc_category (tk_decider (ts ! i)) = cat" using cats i by simp
  have ok: "env_ok cat e" and len: "length ps = length ts" and tk: "tokens_ok ts cat (ps, e)"
    using inv S by (simp_all add: conc_inv_def)
  have "env_ok cat e' \<and> tokens_ok ts cat (ps[i := p'], e')"
  proof (cases "ps ! i")
    case Start
    from ts show ?thesis unfolding Start by (rule task_step_Start_inv[OF ok tk comp cat])
  next
    case (Loaded a vs)
    have rt': "codec_roundtrip (cat_codec cat) ev (dc_context (tk_decider (ts ! i)))"
      if "ev \<in> set (snd (tk_decide (ts ! i) s))" for s ev
      using rt[OF nth_mem[OF i(1)] that] .
    have ts': "task_step (ts ! i) (Loaded a vs) e = Some (p', e')" using ts Loaded by simp
    note task_step_Loaded_inv[OF ok tk comp cat rt' i(2) Loaded ts']
    then show ?thesis .
  qed (use ts in \<open>simp_all add: task_step_def\<close>)
  then show ?thesis using len S' by (simp add: conc_inv_def)
qed

lemma conc_inv_start:
  "env_ok cat e \<Longrightarrow> conc_inv ts cat (replicate (length ts) Start, e)"
  by (simp add: conc_inv_def tokens_ok_def)

lemma reach_inv:
  assumes cats: "\<And>t. t \<in> set ts \<Longrightarrow> dc_category (tk_decider t) = cat"
    and comp: "composable (cat_fold cat)"
    and rt: "\<And>t s ev. t \<in> set ts \<Longrightarrow> ev \<in> set (snd (tk_decide t s)) \<Longrightarrow>
               codec_roundtrip (cat_codec cat) ev (dc_context (tk_decider t))"
    and ok: "env_ok cat e"
    and r: "reach ts (replicate (length ts) Start, e) S"
  shows "conc_inv ts cat S"
  using r
proof (induction rule: reach.induct)
  case reach_refl
  show ?case by (rule conc_inv_start[OF ok])
next
  case (reach_step S i S')
  show ?case by (rule sys_step_inv[OF reach_step.IH cats comp rt reach_step.hyps(2)])
qed

lemma loop_run:
  "\<exists>n. run_sched [\<lparr>tk_decider = d, tk_decide = dec, tk_option = opt\<rparr>] (replicate n 0) ([Loaded a vs], e) =
     Some (case transact_loop d dec a vs e of Inl (err, e') \<Rightarrow> ([Failed err], e') | Inr (vs', e') \<Rightarrow> ([Finished vs'], e'))"
proof (induction d dec a vs e rule: transact_loop.induct)
  case (1 d dec a vs e)
  let ?t = "\<lparr>tk_decider = d, tk_decide = dec, tk_option = opt\<rparr>"
  obtain r e1 where sa: "sync_attempt d dec a vs e = (r, e1)" by fastforce
  show ?case
  proof (cases r)
    case (Done vs')
    have "run_sched [?t] (replicate 1 0) ([Loaded a vs], e) = Some ([Finished vs'], e1)"
      using sa Done by (simp add: sys_step_def task_step_def)
    then show ?thesis using transact_loop_Done[OF sa[unfolded Done]] by (intro exI[of _ 1]) simp
  next
    case (Fail err)
    have "run_sched [?t] (replicate 1 0) ([Loaded a vs], e) = Some ([Failed err], e1)"
      using sa Fail by (simp add: sys_step_def task_step_def)
    then show ?thesis using transact_loop_Fail[OF sa[unfolded Fail]] by (intro exI[of _ 1]) simp
  next
    case (Retry a' vs')
    from "1.IH"[OF sa[unfolded Retry, symmetric] refl] obtain n where
      n: "run_sched [?t] (replicate n 0) ([Loaded a' vs'], e1) =
          Some (case transact_loop d dec a' vs' e1 of Inl (err, e') \<Rightarrow> ([Failed err], e') | Inr (vs', e') \<Rightarrow> ([Finished vs'], e'))"
      by blast
    have "run_sched [?t] (replicate (Suc n) 0) ([Loaded a vs], e) = run_sched [?t] (replicate n 0) ([Loaded a' vs'], e1)"
      using sa Retry by (simp add: sys_step_def task_step_def)
    then show ?thesis using n transact_loop_Retry[OF sa[unfolded Retry]] by metis
  qed
qed

lemma task_step_rank:
  assumes st: "task_step t p e = Some (p', e')" and ok: "phase_ok (attempt_bound t) p"
  shows "phase_rank (attempt_bound t) p < phase_rank (attempt_bound t) p' \<and> phase_ok (attempt_bound t) p'"
proof (cases p)
  case Start
  then show ?thesis using st
    by (auto simp: task_step_def phase_rank_def phase_ok_def attempt_bound_def Let_def split: sum.splits prod.splits)
next
  case (Loaded a vs)
  obtain r e1 where sa: "sync_attempt (tk_decider t) (tk_decide t) a vs e = (r, e1)" by fastforce
  have p': "p' = (case r of Done vs' \<Rightarrow> Finished vs' | Retry a' vs' \<Rightarrow> Loaded a' vs' | Fail err \<Rightarrow> Failed err)"
    using st Loaded sa by (auto simp: task_step_def split: outcome.splits)
  show ?thesis
  proof (cases r)
    case (Retry a' vs')
    with sync_attempt_Retry[OF sa[unfolded Retry]] have "a' = Suc a" "a < dc_max_attempts (tk_decider t)" by simp_all
    then show ?thesis using Loaded p' Retry ok by (simp add: phase_rank_def phase_ok_def attempt_bound_def)
  qed (use Loaded p' ok in \<open>simp_all add: phase_rank_def phase_ok_def\<close>)
qed (use st in \<open>simp_all add: task_step_def\<close>)

lemma run_sched_count:
  "run_sched ts is S = Some S' \<Longrightarrow> length (fst S) = length ts \<Longrightarrow>
   (\<And>j. j < length ts \<Longrightarrow> phase_ok (attempt_bound (ts ! j)) (fst S ! j)) \<Longrightarrow> i < length ts \<Longrightarrow>
   count (mset is) i + phase_rank (attempt_bound (ts ! i)) (fst S ! i) \<le> attempt_bound (ts ! i) + 1"
proof (induction "is" arbitrary: S)
  case Nil
  have "phase_ok (attempt_bound (ts ! i)) (fst S ! i)" by (rule Nil.prems(3)[OF Nil.prems(4)])
  then show ?case by (cases "fst S ! i") (auto simp: phase_rank_def phase_ok_def)
next
  case (Cons j js)
  obtain ps e where S: "S = (ps, e)" by fastforce
  from Cons.prems(1) S obtain p' e' where j: "j < length ts" "j < length ps"
    and ts: "task_step (ts ! j) (ps ! j) e = Some (p', e')"
    and rest: "run_sched ts js (ps[j := p'], e') = Some S'"
    by (auto simp: sys_step_def split: if_splits option.splits)
  have okj: "phase_ok (attempt_bound (ts ! j)) (ps ! j)" using Cons.prems(3) j S by simp
  from task_step_rank[OF ts okj] have up: "phase_rank (attempt_bound (ts ! j)) (ps ! j) < phase_rank (attempt_bound (ts ! j)) p'"
    and okp: "phase_ok (attempt_bound (ts ! j)) p'" by simp_all
  have ok': "phase_ok (attempt_bound (ts ! k)) (ps[j := p'] ! k)" if k: "k < length ts" for k
  proof (cases "k = j")
    case True
    then show ?thesis using okp j by simp
  next
    case False
    then show ?thesis using Cons.prems(3)[OF k] S by simp
  qed
  have IH: "count (mset js) i + phase_rank (attempt_bound (ts ! i)) (ps[j := p'] ! i) \<le> attempt_bound (ts ! i) + 1"
    using Cons.IH[OF rest] Cons.prems(2) ok' Cons.prems(4) S by simp
  show ?case
  proof (cases "j = i")
    case True
    then show ?thesis using IH up j S by simp
  next
    case False
    then show ?thesis using IH S by simp
  qed
qed

lemma reach_commit_current:
  assumes cats: "\<And>t. t \<in> set ts \<Longrightarrow> dc_category (tk_decider t) = cat"
    and comp: "composable (cat_fold cat)"
    and rt: "\<And>t s ev. t \<in> set ts \<Longrightarrow> ev \<in> set (snd (tk_decide t s)) \<Longrightarrow>
               codec_roundtrip (cat_codec cat) ev (dc_context (tk_decider t))"
    and ok: "env_ok cat e"
    and r: "reach ts (replicate (length ts) Start, e) S"
    and st: "sys_step ts S i = Some S'" and ld: "fst S ! i = Loaded a vs"
    and wr: "env_store (snd S') \<noteq> env_store (snd S)"
  shows "snd (tk_decide (ts ! i) (snd vs)) \<noteq> [] \<and>
         fst vs = stream_version (env_store (snd S)) (dc_stream (tk_decider (ts ! i))) \<and>
         stream_state cat (env_store (snd S)) (dc_stream (tk_decider (ts ! i)))
           (stream_version (env_store (snd S)) (dc_stream (tk_decider (ts ! i)))) = Inr (snd vs) \<and>
         stream_messages (env_store (snd S')) (dc_stream (tk_decider (ts ! i))) =
           committed_stream cat (env_store (snd S)) (dc_stream (tk_decider (ts ! i)))
             (dc_context (tk_decider (ts ! i))) (snd (tk_decide (ts ! i) (snd vs)))"
proof -
  let ?d = "tk_decider (ts ! i)" and ?sn = "dc_stream (tk_decider (ts ! i))"
  have inv: "conc_inv ts cat S" by (rule reach_inv[OF cats comp rt ok r])
  from st obtain p' e' where i: "i < length ts" "i < length (fst S)"
    and tsp: "task_step (ts ! i) (fst S ! i) (snd S) = Some (p', e')" and e': "snd S' = e'"
    by (auto simp: sys_step_def split: if_splits option.splits)
  have cat: "dc_category ?d = cat" using cats i by simp
  obtain r e'' where sa: "sync_attempt ?d (tk_decide (ts ! i)) a vs (snd S) = (r, e'')" by fastforce
  have "e'' = e'" using tsp ld sa by (auto simp: task_step_def split: outcome.splits)
  with sa e' wr obtain v' where w: "write_messages (env_store (snd S)) ?sn
      (map (\<lambda>x. encode (cat_codec cat) x (dc_context ?d)) (snd (tk_decide (ts ! i) (snd vs)))) (fst vs) =
      Inr (v', env_store (snd S'))"
    using sync_attempt_store[OF sa] cat by auto
  have ne: "snd (tk_decide (ts ! i) (snd vs)) \<noteq> []"
  proof
    assume nil: "snd (tk_decide (ts ! i) (snd vs)) = []"
    obtain xs where "tk_decide (ts ! i) (snd vs) = (xs, [])" using nil by (cases "tk_decide (ts ! i) (snd vs)") simp
    with sync_attempt_empty[of "tk_decide (ts ! i)" vs xs ?d a "snd S"] sa \<open>e'' = e'\<close> e' wr show False by simp
  qed
  have v: "fst vs = stream_version (env_store (snd S)) ?sn" using w by (simp add: write_messages_Inr)
  have "stream_state cat (env_store (snd S)) ?sn (fst vs) = Inr (snd vs)"
    using inv i ld unfolding conc_inv_def tokens_ok_def by auto
  with ne v w show ?thesis
    by (simp add: committed_stream_def write_messages_streams(1)[OF w])
qed

lemma run_alone_transact:
  "\<exists>n. run_sched [\<lparr>tk_decider = d, tk_decide = dec, tk_option = opt\<rparr>] (replicate n 0) ([Start], e) =
     Some (case transact d dec opt e of Inl (err, e') \<Rightarrow> ([Failed err], e') | Inr (vs', e') \<Rightarrow> ([Finished vs'], e'))"
proof (cases "load (dc_category d) (env_store e) (env_cache e) (dc_stream d) opt")
  case (Inl err)
  then have "run_sched [\<lparr>tk_decider = d, tk_decide = dec, tk_option = opt\<rparr>] (replicate 1 0) ([Start], e) = Some ([Failed err], e)"
    by (simp add: sys_step_def task_step_def)
  then show ?thesis using Inl by (intro exI[of _ 1]) (simp add: transact_def)
next
  case (Inr res)
  then obtain vs c where ld: "load (dc_category d) (env_store e) (env_cache e) (dc_stream d) opt = Inr (vs, c)"
    by (cases res) auto
  from loop_run[of d dec opt 1 vs "e\<lparr>env_cache := c\<rparr>"] obtain n where
    n: "run_sched [\<lparr>tk_decider = d, tk_decide = dec, tk_option = opt\<rparr>] (replicate n 0) ([Loaded 1 vs], e\<lparr>env_cache := c\<rparr>) =
        Some (case transact_loop d dec 1 vs (e\<lparr>env_cache := c\<rparr>) of
                Inl (err, e') \<Rightarrow> ([Failed err], e') | Inr (vs', e') \<Rightarrow> ([Finished vs'], e'))"
    by blast
  have "run_sched [\<lparr>tk_decider = d, tk_decide = dec, tk_option = opt\<rparr>] (replicate (Suc n) 0) ([Start], e) =
        run_sched [\<lparr>tk_decider = d, tk_decide = dec, tk_option = opt\<rparr>] (replicate n 0) ([Loaded 1 vs], e\<lparr>env_cache := c\<rparr>)"
    using ld by (simp add: sys_step_def task_step_def)
  then show ?thesis using n ld by (metis transact_def case_sum_inject old.prod.case sum.simps(6))
qed

lemma task_attempts_bounded:
  assumes run: "run_sched ts sched (replicate (length ts) Start, e) = Some S" and i: "i < length ts"
  shows "count (mset sched) i \<le> max 1 (dc_max_attempts (tk_decider (ts ! i))) + 1"
  using run_sched_count[OF run, of i] i by (simp add: phase_rank_def phase_ok_def attempt_bound_def)

lemma cp_tasks_category:
  "t \<in> set (map (\<lambda>(x, p). cp_update_task h x p) reqs) \<Longrightarrow> dc_category (tk_decider t) = cp_category"
  by (auto simp: cp_update_task_def)

lemma cp_tasks_roundtrip:
  "t \<in> set (map (\<lambda>(x, p). cp_update_task h x p) reqs) \<Longrightarrow> ev \<in> set (snd (tk_decide t s)) \<Longrightarrow>
   codec_roundtrip (cat_codec cp_category) ev (dc_context (tk_decider t))"
  by (auto simp: cp_update_task_def cp_codec_roundtrip)

subsection \<open>Properties of concurrent tasks\<close>


lemmas cp_task_simps = cp_update_task_def cp_resolve_def streamId_def ClientId_toStreamId_def Category_def cp_fold_def
  Decide_update_def cp_initial_def Let_def

text \<open>
  C18.  The invariant of concurrent contact-preference updates: in every
  state reachable by interleaving \<open>Service.update\<close> calls from a well-formed
  store and coherent cache, the store stays well formed, the shared cache
  coherent, and the version and preferences each call holds between attempts
  are the fold of its stream up to that version.  Rule induction over
  \<open>reach\<close>, with the generic step lemma \<open>sys_step_inv\<close>.
\<close>

theorem cp_updates_invariant:
  assumes ok: "env_ok cp_category e"
    and r: "reach (map (\<lambda>(x, p). cp_update_task h x p) reqs :: (cp_event, preferences, unit, string, 'x) task list) (replicate (length reqs) Start, e) S"
  shows "conc_inv (map (\<lambda>(x, p). cp_update_task h x p) reqs :: (cp_event, preferences, unit, string, 'x) task list) cp_category S"
proof -
  have cats: "\<And>t. t \<in> set (map (\<lambda>(x, p). cp_update_task h x p) reqs :: (cp_event, preferences, unit, string, 'x) task list) \<Longrightarrow> dc_category (tk_decider t) = cp_category"
    by (rule cp_tasks_category)
  have rt: "\<And>t s ev. t \<in> set (map (\<lambda>(x, p). cp_update_task h x p) reqs :: (cp_event, preferences, unit, string, 'x) task list) \<Longrightarrow> ev \<in> set (snd (tk_decide t s)) \<Longrightarrow>
      codec_roundtrip (cat_codec cp_category) ev (dc_context (tk_decider t))"
    by (rule cp_tasks_roundtrip)
  have comp: "composable (cat_fold cp_category)" by (simp add: cp_fold_composable)
  have len: "length (map (\<lambda>(x, p). cp_update_task h x p) reqs :: (cp_event, preferences, unit, string, 'x) task list) = length reqs" by simp
  show ?thesis by (rule reach_inv[OF cats comp rt ok r[folded len]])
qed

theorem cp_updates_invariant_witness:
  "conc_inv (map (\<lambda>(x, p). cp_update_task (\<lambda>x. x) x p) [(''alice'', cp_initial\<lparr>quickSurveys := True\<rparr>)]) cp_category ([Loaded 1 (-1, cp_initial)],
       \<lparr>env_store = \<lparr>st_log = [], st_sql_condition = False\<rparr>,
        env_cache = [StreamName ''ContactPreferences'' ''alice'' \<mapsto> (-1, cp_initial)], env_effects = ([] :: unit list)\<rparr>)"
proof -
  have "sys_step (map (\<lambda>(x, p). cp_update_task (\<lambda>x. x) x p) [(''alice'', cp_initial\<lparr>quickSurveys := True\<rparr>)]) ([Start], \<lparr>env_store = \<lparr>st_log = [], st_sql_condition = False\<rparr>, env_cache = Map.empty, env_effects = ([] :: unit list)\<rparr>) 0 = Some ([Loaded 1 (-1, cp_initial)],
       \<lparr>env_store = \<lparr>st_log = [], st_sql_condition = False\<rparr>,
        env_cache = [StreamName ''ContactPreferences'' ''alice'' \<mapsto> (-1, cp_initial)], env_effects = ([] :: unit list)\<rparr>)"
    by (simp add: model_simps cp_task_simps)
  then have r: "reach (map (\<lambda>(x, p). cp_update_task (\<lambda>x. x) x p) [(''alice'', cp_initial\<lparr>quickSurveys := True\<rparr>)])
      (replicate (length [(''alice'', cp_initial\<lparr>quickSurveys := True\<rparr>)]) Start, \<lparr>env_store = \<lparr>st_log = [], st_sql_condition = False\<rparr>, env_cache = Map.empty, env_effects = ([] :: unit list)\<rparr>) ([Loaded 1 (-1, cp_initial)],
       \<lparr>env_store = \<lparr>st_log = [], st_sql_condition = False\<rparr>,
        env_cache = [StreamName ''ContactPreferences'' ''alice'' \<mapsto> (-1, cp_initial)], env_effects = ([] :: unit list)\<rparr>)"
    by (simp add: reach.reach_step[OF reach.reach_refl])
  show ?thesis using cp_updates_invariant[OF _ r] by simp
qed

text \<open>
  C19.  Serializability of concurrent updates: in any interleaving, a step of
  an update call that writes to the store is an attempt on the stream's
  current version and preferences, these differ from the requested ones, and
  the stream becomes its old messages followed by exactly one encoded
  \<open>ContactPreferencesChanged\<close> at the next version.  An update decided on
  preferences another call has made stale never reaches the store.
\<close>

theorem cp_updates_serializable:
  assumes ok: "env_ok cp_category e"
    and r: "reach (map (\<lambda>(x, p). cp_update_task h x p) reqs :: (cp_event, preferences, unit, string, 'x) task list) (replicate (length reqs) Start, e) S"
    and st: "sys_step (map (\<lambda>(x, p). cp_update_task h x p) reqs :: (cp_event, preferences, unit, string, 'x) task list) S i = Some S'" and ld: "fst S ! i = Loaded a vs"
    and wr: "env_store (snd S') \<noteq> env_store (snd S)"
    and req: "i < length reqs" "reqs ! i = (x, p)"
  shows "stream_state cp_category (env_store (snd S)) (dc_stream (cp_resolve h x))
           (stream_version (env_store (snd S)) (dc_stream (cp_resolve h x))) = Inr (snd vs) \<and>
         snd vs \<noteq> p \<and>
         stream_messages (env_store (snd S')) (dc_stream (cp_resolve h x)) =
           stream_messages (env_store (snd S)) (dc_stream (cp_resolve h x)) @
           [to_timeline (encode cp_codec (ContactPreferencesChanged \<lparr>value_email = x, value_preferences = p\<rparr>) ())
              (stream_version (env_store (snd S)) (dc_stream (cp_resolve h x)) + 1)
              (int (length (st_log (env_store (snd S)))) + 1)]"
proof -
  have cats: "\<And>t. t \<in> set (map (\<lambda>(x, p). cp_update_task h x p) reqs :: (cp_event, preferences, unit, string, 'x) task list) \<Longrightarrow> dc_category (tk_decider t) = cp_category"
    by (rule cp_tasks_category)
  have rt: "\<And>t s ev. t \<in> set (map (\<lambda>(x, p). cp_update_task h x p) reqs :: (cp_event, preferences, unit, string, 'x) task list) \<Longrightarrow> ev \<in> set (snd (tk_decide t s)) \<Longrightarrow>
      codec_roundtrip (cat_codec cp_category) ev (dc_context (tk_decider t))"
    by (rule cp_tasks_roundtrip)
  have comp: "composable (cat_fold cp_category)" by (simp add: cp_fold_composable)
  have len: "length (map (\<lambda>(x, p). cp_update_task h x p) reqs :: (cp_event, preferences, unit, string, 'x) task list) = length reqs" by simp
  have t: "(map (\<lambda>(x, p). cp_update_task h x p) reqs :: (cp_event, preferences, unit, string, 'x) task list) ! i = cp_update_task h x p" using req by simp
  from reach_commit_current[OF cats comp rt ok r[folded len] st ld wr]
  show ?thesis
    unfolding t by (auto simp: cp_update_task_def Decide_update_def committed_stream_def split: if_splits)
qed

theorem cp_updates_serializable_witness:
  "\<exists>S S'. reach (map (\<lambda>(x, p). cp_update_task (\<lambda>x. x) x p) [(''alice'', cp_initial\<lparr>quickSurveys := True\<rparr>)])
             (replicate 1 Start, \<lparr>env_store = \<lparr>st_log = [], st_sql_condition = False\<rparr>, env_cache = Map.empty,
                                  env_effects = ([] :: unit list)\<rparr>) S \<and>
     sys_step (map (\<lambda>(x, p). cp_update_task (\<lambda>x. x) x p) [(''alice'', cp_initial\<lparr>quickSurveys := True\<rparr>)]) S 0 = Some S' \<and>
     fst S ! 0 = Loaded 1 (-1, cp_initial) \<and> env_store (snd S') \<noteq> env_store (snd S) \<and>
     stream_state cp_category (env_store (snd S)) (dc_stream (cp_resolve (\<lambda>x. x) ''alice''))
       (stream_version (env_store (snd S)) (dc_stream (cp_resolve (\<lambda>x. x) ''alice''))) = Inr cp_initial \<and>
     cp_initial \<noteq> cp_initial\<lparr>quickSurveys := True\<rparr> \<and>
     stream_messages (env_store (snd S')) (dc_stream (cp_resolve (\<lambda>x. x) ''alice'')) =
       stream_messages (env_store (snd S)) (dc_stream (cp_resolve (\<lambda>x. x) ''alice'')) @
       [to_timeline (encode cp_codec (ContactPreferencesChanged
                       \<lparr>value_email = ''alice'', value_preferences = cp_initial\<lparr>quickSurveys := True\<rparr>\<rparr>) ())
          (stream_version (env_store (snd S)) (dc_stream (cp_resolve (\<lambda>x. x) ''alice'')) + 1)
          (int (length (st_log (env_store (snd S)))) + 1)]"
proof -
  let ?ts = "map (\<lambda>(x, p). cp_update_task (\<lambda>x. x) x p) [(''alice'', cp_initial\<lparr>quickSurveys := True\<rparr>)]
               :: (cp_event, preferences, unit, string, unit) task list"
  let ?sn = "StreamName ''ContactPreferences'' ''alice''"
  let ?e0 = "\<lparr>env_store = \<lparr>st_log = [], st_sql_condition = False\<rparr>, env_cache = Map.empty, env_effects = ([] :: unit list)\<rparr>"
  let ?S1 = "([Loaded 1 (-1, cp_initial)], ?e0\<lparr>env_cache := [?sn \<mapsto> (-1, cp_initial)]\<rparr>)"
  let ?S2 = "([Finished (0, cp_initial\<lparr>quickSurveys := True\<rparr>)],
      \<lparr>env_store = \<lparr>st_log = [(?sn, to_timeline (encode cp_codec
          (ContactPreferencesChanged \<lparr>value_email = ''alice'', value_preferences = cp_initial\<lparr>quickSurveys := True\<rparr>\<rparr>) ()) 0 1)], st_sql_condition = False\<rparr>,
       env_cache = [?sn \<mapsto> (0, cp_initial\<lparr>quickSurveys := True\<rparr>)], env_effects = ([] :: unit list)\<rparr>)"
  have s1: "sys_step ?ts ([Start], ?e0) 0 = Some ?S1" by (simp add: model_simps cp_task_simps)
  have r: "reach ?ts (replicate 1 Start, ?e0) ?S1" using reach.reach_step[OF reach.reach_refl s1] by simp
  have s2: "sys_step ?ts ?S1 0 = Some ?S2" by (simp add: model_simps cp_task_simps)
  have ne: "env_store (snd ?S2) \<noteq> env_store (snd ?S1)" by simp
  have r': "reach ?ts (replicate (length [(''alice'', cp_initial\<lparr>quickSurveys := True\<rparr>)]) Start, ?e0) ?S1"
    using r by simp
  have "env_ok cp_category ?e0" by (simp add: env_ok_def store_wf_def cache_coherent_def)
  from cp_updates_serializable[OF this r' s2 _ ne, of 1 "(-1, cp_initial)" "''alice''" "cp_initial\<lparr>quickSurveys := True\<rparr>"]
  show ?thesis using r s2 ne by (intro exI[of _ ?S1] exI[of _ ?S2]) simp
qed

text \<open>
  C20.  Termination under any schedule: an update call takes at most four
  steps (the load and its three attempts), however the calls interleave; a
  schedule naming it more often cannot run.
\<close>

theorem cp_update_task_steps:
  assumes run: "run_sched (map (\<lambda>(x, p). cp_update_task h x p) reqs :: (cp_event, preferences, unit, string, 'x) task list) sched (replicate (length reqs) Start, e) = Some S"
    and i: "i < length reqs"
  shows "count (mset sched) i \<le> 4"
proof -
  have len: "length (map (\<lambda>(x, p). cp_update_task h x p) reqs :: (cp_event, preferences, unit, string, 'x) task list) = length reqs" by simp
  obtain x p where xp: "reqs ! i = (x, p)" by fastforce
  from task_attempts_bounded[OF run[folded len], of i] i xp
  show ?thesis by (simp add: cp_update_task_def)
qed

theorem cp_update_task_steps_witness:
  "\<exists>S. run_sched (map (\<lambda>(x, p). cp_update_task (\<lambda>x. x) x p) [(''alice'', cp_initial\<lparr>quickSurveys := True\<rparr>)]) [0, 0] (replicate (length [(''alice'', cp_initial\<lparr>quickSurveys := True\<rparr>)]) Start, \<lparr>env_store = \<lparr>st_log = [], st_sql_condition = False\<rparr>, env_cache = Map.empty, env_effects = ([] :: unit list)\<rparr>) = Some S \<and>
       count (mset [0, 0 :: nat]) 0 \<le> 4"
proof -
  let ?sn = "StreamName ''ContactPreferences'' ''alice''"
  let ?S = "([Finished (0, cp_initial\<lparr>quickSurveys := True\<rparr>)],
      \<lparr>env_store = \<lparr>st_log = [(?sn, to_timeline (encode cp_codec
          (ContactPreferencesChanged \<lparr>value_email = ''alice'', value_preferences = cp_initial\<lparr>quickSurveys := True\<rparr>\<rparr>) ()) 0 1)], st_sql_condition = False\<rparr>,
       env_cache = [?sn \<mapsto> (0, cp_initial\<lparr>quickSurveys := True\<rparr>)], env_effects = ([] :: unit list)\<rparr>)"
  have run: "run_sched (map (\<lambda>(x, p). cp_update_task (\<lambda>x. x) x p) [(''alice'', cp_initial\<lparr>quickSurveys := True\<rparr>)]) [0, 0] (replicate (length [(''alice'', cp_initial\<lparr>quickSurveys := True\<rparr>)]) Start, \<lparr>env_store = \<lparr>st_log = [], st_sql_condition = False\<rparr>, env_cache = Map.empty, env_effects = ([] :: unit list)\<rparr>) = Some ?S"
    by (simp add: model_simps cp_task_simps)
  show ?thesis using run cp_update_task_steps[OF run] by auto
qed


lemma empty_stream_cache:
  assumes ok: "env_ok cat e" and fresh: "stream_messages (env_store e) sn = []"
  shows "env_cache e sn = None \<or> env_cache e sn = Some (-1, cat_fold cat (cat_initial cat) [])"
proof (cases "env_cache e sn")
  case (Some vs)
  obtain v s where vs: "vs = (v, s)" by (cases vs)
  from cache_coherent_entry[of cat "env_store e" "env_cache e" sn v s] ok Some vs
  have "-1 \<le> v \<and> v \<le> stream_version (env_store e) sn \<and> stream_state cat (env_store e) sn v = Inr s"
    by (simp add: env_ok_def)
  with fresh show ?thesis by (simp add: Some vs stream_version_def stream_state_def)
qed simp

lemma store_log_append_eq: "(st\<lparr>st_log := st_log st @ xs\<rparr> = st) \<longleftrightarrow> xs = []"
  by (cases st) simp

lemmas ae_task_simps = ae_send_task_def ae_resolve_def ae_streamId_def CATEGORY_def ae_category_def ae_initial_def
  ae_fold_def ae_decide_def is_EmailSent_def Let_def

lemma ae_encode_type:
  "ev_type (encode (ae_codec is_email is_uuid) e ctx) =
     (case e of EmailSent r \<Rightarrow> ''EmailSent'' | EmailSendingFailed r \<Rightarrow> ''EmailSendingFailed'')"
  by (cases e) (simp_all add: ae_codec_def upcast_codec_def json_codec_def ae_shape_def)

text \<open>
  C21.  Two concurrent \<open>sendEmail\<close> calls for the same invoice (the reaction
  delivered twice, or two handler instances) mail the payer twice while the
  stream records a single \<open>EmailSent\<close>.  This holds for every invoice, payer,
  amount and store in which the invoice's stream is still empty, whichever
  call loads first and whichever attempts first.  Both decisions run on the
  empty state; the first append commits; the second conflicts after its mail
  has gone out, reloads and decides nothing.
\<close>

theorem concurrent_sendEmail_mails_twice:
  fixes e :: ae_env
  assumes ok: "env_ok (ae_category ie iu) e"
    and fresh: "stream_messages (env_store e) (dc_stream (ae_resolve ie iu h iid)) = []"
    and found: "rp pid = Some em" and sent: "ml em (mail_subject amt) (mail_body amt) = MailSent"
    and ord: "{a, b} = {0, 1 :: nat}" "{i, j} = {0, 1 :: nat}"
  shows "\<exists>e'. run_sched (replicate 2 (ae_send_task ie iu h rp ml iid pid amt)) [a, b, i, j, j] ([Start, Start], e) =
             Some (replicate 2 (Finished (0, Some (EmailSent \<lparr>sent_email = em, sent_payer_id = pid\<rparr>))), e') \<and>
           env_effects e' = env_effects e @ [ReadProfile pid, SendMail em (mail_subject amt) (mail_body amt),
                                             ReadProfile pid, SendMail em (mail_subject amt) (mail_body amt)] \<and>
           stream_messages (env_store e') (dc_stream (ae_resolve ie iu h iid)) =
             [to_timeline (encode (ae_codec ie iu) (EmailSent \<lparr>sent_email = em, sent_payer_id = pid\<rparr>) ()) 0
                (int (length (st_log (env_store e))) + 1)]"
proof -
  have ab: "(a = 0 \<and> b = 1) \<or> (a = 1 \<and> b = 0)" and ij: "(i = 0 \<and> j = 1) \<or> (i = 1 \<and> j = 0)"
    using ord by (auto simp: doubleton_eq_iff)
  have fresh': "stream_messages (env_store e) (StreamName CATEGORY (ae_streamId h iid)) = []"
    using fresh by (simp add: ae_resolve_def)
  from empty_stream_cache[OF ok fresh]
  have c: "env_cache e (StreamName CATEGORY (ae_streamId h iid)) = None \<or>
           env_cache e (StreamName CATEGORY (ae_streamId h iid)) = Some (-1, None)"
    by (simp add: ae_resolve_def ae_category_def ae_initial_def ae_fold_def)
  show ?thesis
    using ab ij c fresh' found sent
    by (auto simp: model_simps ae_task_simps stream_messages_log_append numeral_2_eq_2)
qed

theorem concurrent_sendEmail_mails_twice_witness:
  "\<exists>e'. run_sched (replicate 2 (ae_send_task (\<lambda>_. True) (\<lambda>_. True) (\<lambda>x. x) (\<lambda>_. Some ''ann@example.com'') (\<lambda>_ _ _. MailSent) ''inv1'' ''p1'' 100))
          [1, 0, 0, 1, 1] ([Start, Start], \<lparr>env_store = \<lparr>st_log = [], st_sql_condition = False\<rparr>, env_cache = Map.empty, env_effects = []\<rparr>) =
        Some (replicate 2 (Finished (0, Some (EmailSent \<lparr>sent_email = ''ann@example.com'', sent_payer_id = ''p1''\<rparr>))), e') \<and>
        env_effects e' = [] @ [ReadProfile ''p1'', SendMail ''ann@example.com'' (mail_subject 100) (mail_body 100),
                               ReadProfile ''p1'', SendMail ''ann@example.com'' (mail_subject 100) (mail_body 100)] \<and>
        stream_messages (env_store e') (dc_stream (ae_resolve (\<lambda>_. True) (\<lambda>_. True) (\<lambda>x. x) ''inv1'')) =
          [to_timeline (encode (ae_codec (\<lambda>_. True) (\<lambda>_. True)) (EmailSent \<lparr>sent_email = ''ann@example.com'', sent_payer_id = ''p1''\<rparr>) ()) 0
             (int (length (st_log (env_store \<lparr>env_store = \<lparr>st_log = [], st_sql_condition = False\<rparr>, env_cache = Map.empty, env_effects = ([] :: ae_effect list)\<rparr>))) + 1)]"
proof -
  let ?e = "\<lparr>env_store = \<lparr>st_log = [], st_sql_condition = False\<rparr>, env_cache = Map.empty, env_effects = []\<rparr> :: ae_env"
  have ok: "env_ok (ae_category (\<lambda>_. True) (\<lambda>_. True)) ?e" by simp
  have fresh: "stream_messages (env_store ?e) (dc_stream (ae_resolve (\<lambda>_. True) (\<lambda>_. True) (\<lambda>x. x) ''inv1'')) = []"
    by (simp add: stream_messages_def)
  have ab: "{1, 0} = {0, 1 :: nat}" and ij: "{0, 1} = {0, 1 :: nat}" by auto
  from concurrent_sendEmail_mails_twice[OF ok fresh _ _ ab ij, where rp = "\<lambda>_. Some ''ann@example.com''" and pid = "''p1''"
      and ml = "\<lambda>_ _ _. MailSent" and amt = 100]
  show ?thesis by simp
qed


text \<open>
  C34.  Every attempt mails, also the ones that lose: in any interleaving, a
  step of a \<open>sendEmail\<close> task that attempts on a state other than
  \<open>EmailSent\<close> for a payer the profile service finds logs the lookup and the
  mail.  When the append of that attempt conflicts, so that the store is left
  as it was, the task does not finish.  It retries at the next attempt, where
  it mails again, or it fails.
\<close>

theorem sendEmail_attempt_mails:
  assumes st: "sys_step ts S k = Some S'"
    and tk: "ts ! k = ae_send_task ie iu h rp ml iid pid amt"
    and ld: "fst S ! k = Loaded a vs"
    and ns: "\<not> is_EmailSent (snd vs)" and found: "rp pid = Some em"
  shows "env_effects (snd S') = env_effects (snd S) @ [ReadProfile pid, SendMail em (mail_subject amt) (mail_body amt)] \<and>
         (env_store (snd S') = env_store (snd S) \<longrightarrow>
            (\<exists>vs'. fst S' ! k = Loaded (Suc a) vs') \<or> (\<exists>err. fst S' ! k = Failed err))"
proof -
  let ?d = "ae_resolve ie iu h iid" and ?dec = "ae_decide rp ml pid amt"
  obtain r e' where sa: "sync_attempt ?d ?dec a vs (snd S) = (r, e')" by fastforce
  have k: "k < length (fst S)" using st by (simp add: sys_step_def split: if_splits)
  have S': "S' = ((fst S)[k := (case r of Done vs' \<Rightarrow> Finished vs' | Retry a' vs' \<Rightarrow> Loaded a' vs' | Fail err \<Rightarrow> Failed err)], e')"
    using st sa by (cases r) (auto simp: sys_step_def task_step_def tk ld ae_send_task_def Let_def split: if_splits)
  have dec: "?dec (snd vs) = ([ReadProfile pid, SendMail em (mail_subject amt) (mail_body amt)],
                 [case ml em (mail_subject amt) (mail_body amt) of
                    MailSent \<Rightarrow> EmailSent \<lparr>sent_email = em, sent_payer_id = pid\<rparr>
                  | MailThrew msg \<Rightarrow> EmailSendingFailed \<lparr>fail_payer_id = pid,
                      fail_reason = (case msg of None \<Rightarrow> ''Unknown failure'' | Some m \<Rightarrow> m)\<rparr>])"
    using ns found by (simp add: ae_decide_def split: mail_result.split)
  have eff: "env_effects e' = env_effects (snd S) @ [ReadProfile pid, SendMail em (mail_subject amt) (mail_body amt)]"
    using sync_attempt_effects[OF sa] dec by simp
  have "env_store e' = env_store (snd S) \<Longrightarrow> (\<exists>a' vs'. r = Retry a' vs' \<and> a' = Suc a) \<or> (\<exists>err. r = Fail err)"
    using sa dec
    by (auto simp: sync_attempt_def Let_def append_def write_messages_def store_log_append_eq
        split: if_splits sum.splits error.splits prod.splits)
  then show ?thesis using S' eff k by auto
qed


theorem sendEmail_attempt_mails_witness:
  "\<exists>S'. sys_step [ae_send_task (\<lambda>_. True) (\<lambda>_. True) (\<lambda>x. x) (\<lambda>_. Some ''ann@example.com'') (\<lambda>_ _ _. MailSent) ''inv1'' ''p1'' 100]
          ([Loaded 1 (-1, None)],
           \<lparr>env_store = \<lparr>st_log = [(StreamName CATEGORY ''inv1'',
                to_timeline (encode (ae_codec (\<lambda>_. True) (\<lambda>_. True))
                  (EmailSendingFailed \<lparr>fail_payer_id = ''p1'', fail_reason = ''Payer not found''\<rparr>) ()) 0 1)],
              st_sql_condition = False\<rparr>,
            env_cache = Map.empty, env_effects = []\<rparr>) 0 = Some S' \<and>
        env_effects (snd S') = [] @ [ReadProfile ''p1'', SendMail ''ann@example.com'' (mail_subject 100) (mail_body 100)] \<and>
        env_store (snd S') = \<lparr>st_log = [(StreamName CATEGORY ''inv1'',
                to_timeline (encode (ae_codec (\<lambda>_. True) (\<lambda>_. True))
                  (EmailSendingFailed \<lparr>fail_payer_id = ''p1'', fail_reason = ''Payer not found''\<rparr>) ()) 0 1)],
              st_sql_condition = False\<rparr> \<and>
        ((\<exists>vs'. fst S' ! 0 = Loaded (Suc 1) vs') \<or> (\<exists>err. fst S' ! 0 = Failed err))"
proof -
  let ?T = "ae_send_task (\<lambda>_. True) (\<lambda>_. True) (\<lambda>x. x) (\<lambda>_. Some ''ann@example.com'') (\<lambda>_ _ _. MailSent) ''inv1'' ''p1'' 100"
  let ?st = "\<lparr>st_log = [(StreamName CATEGORY ''inv1'',
                to_timeline (encode (ae_codec (\<lambda>_. True) (\<lambda>_. True))
                  (EmailSendingFailed \<lparr>fail_payer_id = ''p1'', fail_reason = ''Payer not found''\<rparr>) ()) 0 1)],
              st_sql_condition = False\<rparr> :: string store"
  let ?S = "([Loaded 1 (-1, None)], \<lparr>env_store = ?st, env_cache = Map.empty, env_effects = []\<rparr>) :: (ae_state, string, ae_effect) sys"
  have dec: "try_decode (ae_codec (\<lambda>_. True) (\<lambda>_. True)) (to_timeline (encode (ae_codec (\<lambda>_. True) (\<lambda>_. True))
      (EmailSendingFailed \<lparr>fail_payer_id = ''p1'', fail_reason = ''Payer not found''\<rparr>) ()) 0 1) =
      Inr (Some (EmailSendingFailed \<lparr>fail_payer_id = ''p1'', fail_reason = ''Payer not found''\<rparr>))"
    using ae_codec_roundtrip[of "\<lambda>_. True" "\<lambda>_. True" "EmailSendingFailed \<lparr>fail_payer_id = ''p1'', fail_reason = ''Payer not found''\<rparr>" "()"]
    by (simp add: codec_roundtrip_def ae_valid_def)
  have "\<exists>S'. sys_step [?T] ?S 0 = Some S' \<and> env_store (snd S') = ?st"
    by (simp add: model_simps ae_task_simps ae_encode_type dec)
  then obtain S' where st: "sys_step [?T] ?S 0 = Some S'" and same: "env_store (snd S') = ?st" by blast
  from sendEmail_attempt_mails[OF st, where a = 1 and vs = "(-1, None)" and em = "''ann@example.com''"
      and ie = "\<lambda>_. True" and iu = "\<lambda>_. True" and h = "\<lambda>x. x" and rp = "\<lambda>_. Some ''ann@example.com''"
      and ml = "\<lambda>_ _ _. MailSent" and iid = "''inv1''" and pid = "''p1''" and amt = 100]
  show ?thesis using st same by (simp add: is_EmailSent_def)
qed


end
