(* ===== verification/Reader.thy ===== *)
theory Reader
  imports Store "HOL-Library.Multiset"
begin

text \<open>
  The category reader of the message-db consumer (spec section 4.5) and the
  checkpoint store (section 4.6).  The reader is not under \<^verbatim>\<open>src/\<close>: it is
  modelled from the spec.  Its test, \<^verbatim>\<open>packages/message-db-consumer/tests/reader.test.mts\<close>,
  is: the stores the test writes and the reads it makes are definitions here,
  and the test's expectations are theorems.

  A read filters the store's log, which is ordered by global position, by
  category, position, the optional server-side condition and the optional
  consumer-group shard, and returns the first \<open>batchSize\<close> matches with the
  checkpoint and the tail flag of the spec.  The SQL condition is a predicate
  on messages; the hash of a stream id that assigns shards is a parameter.
\<close>

subsection \<open>Reads\<close>

record 'f read_request =
  rq_category :: string
  rq_from :: global_position
  rq_batch :: nat
  rq_condition :: "('f timeline_event \<Rightarrow> bool) option"
  rq_member :: "nat option"
  rq_size :: "nat option"

record 'f batch =
  b_messages :: "(stream_name \<times> 'f timeline_event) list"
  b_checkpoint :: global_position
  b_isTail :: bool

definition in_shard :: "(string \<Rightarrow> nat) \<Rightarrow> nat option \<Rightarrow> nat option \<Rightarrow> stream_name \<Rightarrow> bool" where
  "in_shard hash member group_size sn =
     (case (member, group_size) of (Some m, Some n) \<Rightarrow> hash (sn_id sn) mod n = m | _ \<Rightarrow> True)"

definition read_matches :: "(string \<Rightarrow> nat) \<Rightarrow> 'f read_request \<Rightarrow> stream_name \<times> 'f timeline_event \<Rightarrow> bool" where
  "read_matches hash req m \<longleftrightarrow>
     sn_category (fst m) = rq_category req \<and> rq_from req \<le> ev_global (snd m) \<and>
     (case rq_condition req of None \<Rightarrow> True | Some c \<Rightarrow> c (snd m)) \<and>
     in_shard hash (rq_member req) (rq_size req) (fst m)"

text \<open>
  \<open>readCategoryMessages\<close>.  A condition against a store without the feature
  fails; a consumer group whose size is zero or whose member is not below the
  size is rejected (the spec leaves this case open).
\<close>

definition readCategoryMessages ::
  "(string \<Rightarrow> nat) \<Rightarrow> 'f store \<Rightarrow> 'f read_request \<Rightarrow> error + 'f batch" where
  "readCategoryMessages hash st req =
     (if rq_condition req \<noteq> None \<and> \<not> st_sql_condition st then Inl ConditionNotSupported
      else if (case (rq_member req, rq_size req) of (Some m, Some n) \<Rightarrow> n = 0 \<or> n \<le> m | _ \<Rightarrow> False)
      then Inl InvalidConsumerGroup
      else let ms = take (rq_batch req) (filter (read_matches hash req) (st_log st))
           in Inr \<lparr>b_messages = ms,
                   b_checkpoint = (if ms = [] then rq_from req else ev_global (snd (last ms))),
                   b_isTail = length ms < rq_batch req\<rparr>)"

text \<open>
  \<open>writeSingleMessage(stream, event, expectedVersion)\<close>: \<open>null\<close> as expected
  version appends without a check.
\<close>

definition writeSingleMessage ::
  "'f store \<Rightarrow> stream_name \<Rightarrow> 'f stream_event \<Rightarrow> version option \<Rightarrow> error + version \<times> 'f store" where
  "writeSingleMessage st sn ev expected =
     write_messages st sn [ev] (case expected of None \<Rightarrow> stream_version st sn | Some v \<Rightarrow> v)"

fun write_each :: "'f store \<Rightarrow> (stream_name \<times> 'f stream_event) list \<Rightarrow> error + 'f store" where
  "write_each st [] = Inr st"
| "write_each st ((sn, ev) # rest) =
     (case writeSingleMessage st sn ev (Some (-1)) of Inl err \<Rightarrow> Inl err | Inr (v, st') \<Rightarrow> write_each st' rest)"

subsection \<open>The checkpoint store and the consumer loop\<close>

text \<open>
  The checkpoint store maps a category and a consumer group to a position.
  The consumer loop reads a batch, hands it to the handler, persists the
  batch's checkpoint and continues after it until a batch is the tail.  With
  a batch size of zero no batch is ever the tail and the loop does not end, so
  the loop runs on fuel and \<open>None\<close> is running out of it; the theorems show
  that a positive batch size and one round per batch are enough.
\<close>

type_synonym checkpoints = "string \<times> string \<rightharpoonup> global_position"

definition checkpoint_write :: "checkpoints \<Rightarrow> string \<Rightarrow> string \<Rightarrow> global_position \<Rightarrow> checkpoints" where
  "checkpoint_write cps cat grp pos = cps((cat, grp) \<mapsto> pos)"

fun consume ::
  "nat \<Rightarrow> (string \<Rightarrow> nat) \<Rightarrow> 'f store \<Rightarrow> 'f read_request \<Rightarrow> string \<Rightarrow> checkpoints
   \<Rightarrow> (error + (stream_name \<times> 'f timeline_event) list \<times> checkpoints) option" where
  "consume 0 hash st req grp cps = None"
| "consume (Suc n) hash st req grp cps =
     (case readCategoryMessages hash st req of
        Inl err \<Rightarrow> Some (Inl err)
      | Inr b \<Rightarrow>
          let cps' = (if b_messages b = [] then cps else checkpoint_write cps (rq_category req) grp (b_checkpoint b))
          in if b_isTail b then Some (Inr (b_messages b, cps'))
             else case consume n hash st (req\<lparr>rq_from := b_checkpoint b + 1\<rparr>) grp cps' of
                    None \<Rightarrow> None
                  | Some (Inl err) \<Rightarrow> Some (Inl err)
                  | Some (Inr (ms, cps'')) \<Rightarrow> Some (Inr (b_messages b @ ms, cps'')))"

subsection \<open>The reader test\<close>

text \<open>
  \<^verbatim>\<open>reader.test.mts\<close>: a fresh category with one stream of 100 \<open>TestEvent\<close>s
  and one \<open>ExclusiveEvent\<close> (lines 16--19), the reads of the three tests
  (lines 20--55), and for the consumer groups a fresh category of 100 streams
  of one event each (lines 59--65) read by the three members of a group of
  three (lines 67--91).  Random UUIDs are fixed names here; the theorems
  assume only that the categories are new to the store.
\<close>

definition test_event :: "string \<Rightarrow> string stream_event" where
  "test_event t = \<lparr>ev_id = None, ev_type = t, ev_data = None, ev_meta = None\<rparr>"

definition test_category :: string where
  "test_category = ''cat1''"

definition test_stream :: stream_name where
  "test_stream = StreamName test_category ''stream1''"

definition test_setup :: "string store \<Rightarrow> error + string store" where
  "test_setup st0 =
     (case write_messages st0 test_stream (replicate 100 (test_event ''TestEvent'')) (-1) of
        Inl err \<Rightarrow> Inl err
      | Inr (v, st1) \<Rightarrow>
          (case writeSingleMessage st1 test_stream (test_event ''ExclusiveEvent'') None of
             Inl err \<Rightarrow> Inl err
           | Inr (v', st2) \<Rightarrow> Inr st2))"

definition test_request :: "('f timeline_event \<Rightarrow> bool) option \<Rightarrow> 'f read_request" where
  "test_request cond =
     \<lparr>rq_category = test_category, rq_from = 0, rq_batch = 10, rq_condition = cond, rq_member = None, rq_size = None\<rparr>"

definition exclusive_condition :: "'f timeline_event \<Rightarrow> bool" where
  "exclusive_condition m \<longleftrightarrow> ev_type m = ''ExclusiveEvent''"




definition group_category :: string where
  "group_category = ''cat2''"

definition group_stream :: "nat \<Rightarrow> stream_name" where
  "group_stream i = StreamName group_category (''stream'' @ show_int (int i))"

definition group_setup :: "string store \<Rightarrow> error + string store" where
  "group_setup st0 = write_each st0 (map (\<lambda>i. (group_stream i, test_event ''TestEvent'')) [0..<100])"

definition group_request :: "nat \<Rightarrow> 'f read_request" where
  "group_request i =
     \<lparr>rq_category = group_category, rq_from = 0, rq_batch = 100, rq_condition = None,
      rq_member = Some i, rq_size = Some 3\<rparr>"

text \<open>
  Each test as a predicate that holds when the test passes; a setup or a read
  that throws fails the test.  ``Can read a category'', lines 20--30, after
  the setup of lines 16--19.
\<close>

definition test_read_category :: "(string \<Rightarrow> nat) \<Rightarrow> string store \<Rightarrow> bool" where
  "test_read_category hash st0 =
     (case test_setup st0 of
        Inl _ \<Rightarrow> False
      | Inr st \<Rightarrow> (case readCategoryMessages hash st (test_request None) of
                    Inl _ \<Rightarrow> False
                  | Inr b \<Rightarrow> length (b_messages b) = 10 \<and> \<not> b_isTail b \<and> 0 < b_checkpoint b))"

text \<open>
  ``Can not read a category with a condition if sql_condition is off'', lines
  31--41: the read rejects with the condition error.
\<close>

definition test_condition_off :: "(string \<Rightarrow> nat) \<Rightarrow> string store \<Rightarrow> bool" where
  "test_condition_off hash st0 =
     (case test_setup st0 of
        Inl _ \<Rightarrow> False
      | Inr st \<Rightarrow> readCategoryMessages hash st (test_request (Some exclusive_condition)) = Inl ConditionNotSupported)"


text \<open>What the consumer-group test expects of each member's read, lines 82--84.\<close>

definition member_expect :: "error + 'f batch \<Rightarrow> bool" where
  "member_expect r =
     (case r of Inl _ \<Rightarrow> False | Inr b \<Rightarrow> b_isTail b \<and> 0 < length (b_messages b) \<and> 0 < b_checkpoint b)"

text \<open>
  The set of the message ids of a member's batch, line 85.  The store gives
  every message a fresh random id; a message is identified here by its global
  position, which is unique as well.
\<close>

definition member_ids :: "error + 'f batch \<Rightarrow> global_position set" where
  "member_ids r = (case r of Inl _ \<Rightarrow> {} | Inr b \<Rightarrow> set (map (ev_global \<circ> snd) (b_messages b)))"

text \<open>\<open>setIntersection\<close>, lines 93--95.\<close>

definition setIntersection :: "'a set \<Rightarrow> 'a set \<Rightarrow> 'a set" where
  "setIntersection a b = Set.filter (\<lambda>x. x \<in> b) a"

text \<open>
  ``Can segment fetching into consumer groups, each getting a different set of
  messages'', lines 67--91: each member of a group of three reads a batch of
  up to 100 from position 0; the sets of ids are pairwise disjoint
  (\<open>toHaveLength(0)\<close> of a set is its size).
\<close>

definition test_consumer_groups :: "(string \<Rightarrow> nat) \<Rightarrow> string store \<Rightarrow> bool" where
  "test_consumer_groups hash st0 =
     (case group_setup st0 of
        Inl _ \<Rightarrow> False
      | Inr st \<Rightarrow>
          (let reads = map (\<lambda>i. readCategoryMessages hash st (group_request i)) [0..<3];
               messages = map member_ids reads
           in list_all member_expect reads \<and>
              setIntersection (messages ! 0) (messages ! 1) = {} \<and>
              setIntersection (messages ! 0) (messages ! 2) = {} \<and>
              setIntersection (messages ! 1) (messages ! 2) = {}))"

text \<open>The log entries of a sequence of one-event writes to new streams, from a global position on.\<close>

fun single_writes :: "global_position \<Rightarrow> (stream_name \<times> 'f stream_event) list \<Rightarrow> (stream_name \<times> 'f timeline_event) list" where
  "single_writes g [] = []"
| "single_writes g ((sn, ev) # rest) = (sn, to_timeline ev 0 g) # single_writes (g + 1) rest"

text \<open>The log entries the consumer-group setup appends to a store.\<close>

abbreviation group_writes :: "string store \<Rightarrow> (stream_name \<times> string timeline_event) list" where
  "group_writes st0 \<equiv>
     single_writes (int (length (st_log st0)) + 1) (map (\<lambda>i. (group_stream i, test_event ''TestEvent'')) [0..<100])"

text \<open>The reads that do not fail: no condition the store cannot run, a valid group.\<close>

definition read_ok :: "'f store \<Rightarrow> 'f read_request \<Rightarrow> bool" where
  "read_ok st req \<longleftrightarrow>
     (rq_condition req = None \<or> st_sql_condition st) \<and>
     (case (rq_member req, rq_size req) of (Some m, Some n) \<Rightarrow> m < n | _ \<Rightarrow> True)"

subsection \<open>Lemmas: reads\<close>

lemma stamp_append:
  "stamp i g (xs @ ys) = stamp i g xs @ stamp (i + int (length xs)) (g + int (length xs)) ys"
  by (induction xs arbitrary: i g) (simp_all add: algebra_simps)

lemma stamp_global_ge: "x \<in> set (stamp i g es) \<Longrightarrow> g \<le> ev_global x"
proof (induction es arbitrary: i g)
  case Nil
  then show ?case by simp
next
  case (Cons e es)
  show ?case
  proof (cases "x = to_timeline e i g")
    case True
    then show ?thesis by simp
  next
    case False
    then have "x \<in> set (stamp (i + 1) (g + 1) es)" using Cons.prems by simp
    then have "g + 1 \<le> ev_global x" by (rule Cons.IH)
    then show ?thesis by simp
  qed
qed

lemma stamp_Nil_iff [simp]: "stamp i g es = [] \<longleftrightarrow> es = []"
  by (cases es) simp_all


lemma stream_version_fresh:
  "(\<forall>m \<in> set (st_log st). sn_category (fst m) \<noteq> sn_category sn) \<Longrightarrow> stream_version st sn = -1"
  by (auto simp: stream_version_def stream_messages_def filter_empty_conv)

lemma test_setup_log:
  assumes fresh: "\<forall>m \<in> set (st_log st0). sn_category (fst m) \<noteq> test_category"
  shows "test_setup st0 =
           Inr (st0\<lparr>st_log := st_log st0 @ map (Pair test_stream)
                  (stamp 0 (int (length (st_log st0)) + 1)
                     (replicate 100 (test_event ''TestEvent'') @ [test_event ''ExclusiveEvent'']))\<rparr>)"
proof -
  let ?L = "int (length (st_log st0))"
  have v0: "stream_version st0 test_stream = -1"
    using fresh by (simp add: stream_version_fresh test_stream_def)
  let ?st1 = "st0\<lparr>st_log := st_log st0 @ map (Pair test_stream) (stamp 0 (?L + 1) (replicate 100 (test_event ''TestEvent'')))\<rparr>"
  have w1: "write_messages st0 test_stream (replicate 100 (test_event ''TestEvent'')) (-1) = Inr (99, ?st1)"
    using v0 by (simp add: write_messages_Inr)
  have v1: "stream_version ?st1 test_stream = 99"
    using write_messages_streams(2)[OF w1, of test_stream] v0 by simp
  have "writeSingleMessage ?st1 test_stream (test_event ''ExclusiveEvent'') None =
          Inr (100, ?st1\<lparr>st_log := st_log ?st1 @ map (Pair test_stream) (stamp 100 (?L + 101) [test_event ''ExclusiveEvent''])\<rparr>)"
    using v1 by (simp add: writeSingleMessage_def write_messages_Inr)
  then show ?thesis
    using w1 by (simp add: test_setup_def stamp_append)
qed

lemma read_fresh_prefix:
  assumes fresh: "\<forall>m \<in> set log0. sn_category (fst m) \<noteq> rq_category req"
  shows "filter (read_matches hash req) (log0 @ ms) = filter (read_matches hash req) ms"
  using fresh by (auto simp: read_matches_def filter_empty_conv)


lemma test_new_matches:
  assumes "m \<in> set (map (Pair test_stream) (stamp 0 (int L + 1) evs))"
  shows "sn_category (fst m) = test_category \<and> 1 \<le> ev_global (snd m) \<and> int L + 1 \<le> ev_global (snd m)"
proof -
  obtain x where x: "x \<in> set (stamp 0 (int L + 1) evs)" and m: "m = (test_stream, x)" using assms by auto
  have "int L + 1 \<le> ev_global x" by (rule stamp_global_ge[OF x])
  then show ?thesis using m by (simp add: test_stream_def)
qed

lemma test_selection:
  assumes fresh: "\<forall>m \<in> set log0. sn_category (fst m) \<noteq> test_category"
  shows "filter (read_matches hash (test_request None)) (log0 @ map (Pair test_stream) (stamp 0 (int L + 1) evs)) =
           map (Pair test_stream) (stamp 0 (int L + 1) evs)"
proof -
  have fresh': "\<forall>m \<in> set log0. sn_category (fst m) \<noteq> rq_category (test_request None :: 'f read_request)"
    using fresh by (simp add: test_request_def)
  have "filter (read_matches hash (test_request None)) (map (Pair test_stream) (stamp 0 (int L + 1) evs)) =
          map (Pair test_stream) (stamp 0 (int L + 1) evs)"
  proof (rule filter_True, intro ballI)
    fix m assume "m \<in> set (map (Pair test_stream) (stamp 0 (int L + 1) evs))"
    from test_new_matches[OF this] show "read_matches hash (test_request None) m"
      by (simp add: read_matches_def test_request_def in_shard_def)
  qed
  then show ?thesis using read_fresh_prefix[OF fresh'] by simp
qed

lemma write_each_fresh:
  assumes "distinct (map fst items)" and "\<forall>(sn, ev) \<in> set items. stream_messages st sn = []"
  shows "write_each st items = Inr (st\<lparr>st_log := st_log st @ single_writes (int (length (st_log st)) + 1) items\<rparr>)"
  using assms
proof (induction items arbitrary: st)
  case Nil
  then show ?case by simp
next
  case (Cons item rest)
  obtain sn ev where item: "item = (sn, ev)" by fastforce
  let ?st' = "st\<lparr>st_log := st_log st @ [(sn, to_timeline ev 0 (int (length (st_log st)) + 1))]\<rparr>"
  have v: "stream_version st sn = -1" using Cons.prems(2) item by (simp add: stream_version_def)
  have w: "writeSingleMessage st sn ev (Some (-1)) = Inr (0, ?st')"
    using v by (simp add: writeSingleMessage_def write_messages_Inr)
  have "\<forall>(sn', ev') \<in> set rest. stream_messages ?st' sn' = []"
  proof (intro ballI, clarify)
    fix sn' ev' assume r: "(sn', ev') \<in> set rest"
    then have "sn' \<noteq> sn" using Cons.prems(1) item by force
    moreover have "stream_messages st sn' = []" using Cons.prems(2) r by auto
    ultimately show "stream_messages ?st' sn' = []" by (simp add: stream_messages_def)
  qed
  then have "write_each ?st' rest = Inr (?st'\<lparr>st_log := st_log ?st' @ single_writes (int (length (st_log ?st')) + 1) rest\<rparr>)"
    using Cons.IH Cons.prems(1) item by simp
  then show ?case using w item by (simp add: algebra_simps)
qed

lemma single_writes_global: "m \<in> set (single_writes g items) \<Longrightarrow> g \<le> ev_global (snd m)"
  by (induction g items rule: single_writes.induct) (auto simp: to_timeline_def)

lemma single_writes_streams: "map fst (single_writes g items) = map fst items"
  by (induction g items rule: single_writes.induct) auto

lemma group_streams_distinct: "distinct (map group_stream [0..<n])"
proof -
  have "inj group_stream"
  proof (rule injI)
    fix i j assume "group_stream i = group_stream j"
    then have "nat_digits i = nat_digits j" by (simp add: group_stream_def show_int_def)
    then have "foldl (\<lambda>a d. 10 * a + digit_val d) 0 (nat_digits i) = foldl (\<lambda>a d. 10 * a + digit_val d) 0 (nat_digits j)"
      by simp
    then show "i = j" using nat_digits_props[of i] nat_digits_props[of j] by simp
  qed
  then show ?thesis by (simp add: distinct_map inj_on_def)
qed

subsection \<open>The reader test as theorems\<close>

lemma test_setup_read_category:
  assumes fresh: "\<forall>m \<in> set (st_log st0). sn_category (fst m) \<noteq> test_category"
  shows "\<exists>st b. test_setup st0 = Inr st \<and> readCategoryMessages hash st (test_request None) = Inr b \<and>
           length (b_messages b) = 10 \<and> \<not> b_isTail b \<and> 0 < b_checkpoint b"
proof -
  let ?L = "length (st_log st0)"
  let ?new = "map (Pair test_stream) (stamp 0 (int ?L + 1)
                 (replicate 100 (test_event ''TestEvent'') @ [test_event ''ExclusiveEvent'']))"
  have sel: "filter (read_matches hash (test_request None)) (st_log st0 @ ?new) = ?new"
    by (rule test_selection[OF fresh])
  have len: "length (take 10 ?new) = 10" by simp
  have "last (take 10 ?new) \<in> set ?new"
    by (metis len in_set_takeD last_in_set list.size(3) zero_neq_numeral)
  then have pos: "0 < ev_global (snd (last (take 10 ?new)))"
    using test_new_matches[of _ ?L] by fastforce
  show ?thesis
    using test_setup_log[OF fresh] sel len pos
    by (auto simp: readCategoryMessages_def test_request_def Let_def)
qed

text \<open>
  C22.  Test ``Can read a category'' (lines 20--30) passes: after the setup,
  reading the new category from position 0 with a batch of 10 returns 10
  messages, is not the tail, and has a positive checkpoint, whatever the store
  held before in other categories and whatever the shard hash.
\<close>

theorem reader_test_read_category:
  assumes fresh: "\<forall>m \<in> set (st_log st0). sn_category (fst m) \<noteq> test_category"
  shows "test_read_category hash st0"
  using test_setup_read_category[OF fresh, of hash] by (auto simp: test_read_category_def)

theorem reader_test_read_category_witness:
  "test_read_category (\<lambda>_. 0) \<lparr>st_log = [], st_sql_condition = False\<rparr>"
  by (rule reader_test_read_category) simp

lemma test_setup_condition_off:
  assumes fresh: "\<forall>m \<in> set (st_log st0). sn_category (fst m) \<noteq> test_category"
    and off: "\<not> st_sql_condition st0"
  shows "\<exists>st. test_setup st0 = Inr st \<and>
           readCategoryMessages hash st (test_request (Some exclusive_condition)) = Inl ConditionNotSupported"
  using test_setup_log[OF fresh] off by (simp add: readCategoryMessages_def test_request_def)

text \<open>
  C23.  Test ``Can not read a category with a condition if sql_condition is
  off'' (lines 31--41) passes: on a store with the feature off, the read with a
  condition rejects with the condition error and returns no batch.
\<close>

theorem reader_test_condition_off:
  assumes fresh: "\<forall>m \<in> set (st_log st0). sn_category (fst m) \<noteq> test_category"
    and off: "\<not> st_sql_condition st0"
  shows "test_condition_off hash st0"
  using test_setup_condition_off[OF fresh off, of hash] by (auto simp: test_condition_off_def)

theorem reader_test_condition_off_witness:
  "test_condition_off (\<lambda>_. 0) \<lparr>st_log = [], st_sql_condition = False\<rparr>"
  by (rule reader_test_condition_off) simp_all





lemma group_setup_log:
  assumes fresh: "\<forall>m \<in> set (st_log st0). sn_category (fst m) \<noteq> group_category"
  shows "group_setup st0 =
           Inr (st0\<lparr>st_log := st_log st0 @ single_writes (int (length (st_log st0)) + 1)
                   (map (\<lambda>i. (group_stream i, test_event ''TestEvent'')) [0..<100])\<rparr>)"
proof -
  have d: "distinct (map fst (map (\<lambda>i. (group_stream i, test_event ''TestEvent'')) [0..<100]))"
    using group_streams_distinct[of 100] by (simp add: o_def)
  have f: "\<forall>(sn, ev) \<in> set (map (\<lambda>i. (group_stream i, test_event ''TestEvent'')) [0..<100]). stream_messages st0 sn = []"
    using fresh by (auto simp: stream_messages_def group_stream_def filter_empty_conv)
  show ?thesis unfolding group_setup_def by (rule write_each_fresh[OF d f])
qed

lemma group_new_entries:
  assumes "m \<in> set (single_writes g (map (\<lambda>i. (group_stream i, ev)) ns))" and "1 \<le> g"
  shows "sn_category (fst m) = group_category \<and> 1 \<le> ev_global (snd m)"
proof -
  have "fst m \<in> set (map fst (single_writes g (map (\<lambda>i. (group_stream i, ev)) ns)))" using assms(1) by simp
  then have "fst m \<in> group_stream ` set ns" by (simp only: single_writes_streams) auto
  then show ?thesis using single_writes_global[OF assms(1)] assms(2) by (auto simp: group_stream_def)
qed

lemma group_writes_new:
  "m \<in> set (group_writes st0) \<Longrightarrow> sn_category (fst m) = group_category \<and> 1 \<le> ev_global (snd m)"
  by (rule group_new_entries) auto

lemma group_writes_length: "length (group_writes st0) = 100"
  using single_writes_streams[of "int (length (st_log st0)) + 1" "map (\<lambda>i. (group_stream i, test_event ''TestEvent'')) [0..<100]"]
  by (metis length_map length_upt minus_nat.diff_0)

text \<open>Member \<open>i\<close> of the group reads, in one batch, the setup's messages whose stream hashes to \<open>i\<close>.\<close>

lemma group_setup_reads:
  fixes hash :: "string \<Rightarrow> nat"
  assumes fresh: "\<forall>m \<in> set (st_log st0). sn_category (fst m) \<noteq> group_category" and i: "i < 3"
  defines "r \<equiv> filter (\<lambda>m. hash (sn_id (fst m)) mod 3 = i) (group_writes st0)"
  shows "readCategoryMessages hash (st0\<lparr>st_log := st_log st0 @ group_writes st0\<rparr>) (group_request i) =
           Inr \<lparr>b_messages = r, b_checkpoint = (if r = [] then 0 else ev_global (snd (last r))),
                b_isTail = length r < 100\<rparr>"
proof -
  have fresh': "\<forall>m \<in> set (st_log st0). sn_category (fst m) \<noteq> rq_category (group_request i :: string read_request)"
    using fresh by (simp add: group_request_def)
  have "filter (read_matches hash (group_request i)) (group_writes st0) = r"
    unfolding r_def
  proof (rule filter_cong[OF refl])
    fix m assume "m \<in> set (group_writes st0)"
    from group_writes_new[OF this] show "read_matches hash (group_request i) m = (hash (sn_id (fst m)) mod 3 = i)"
      by (simp add: read_matches_def group_request_def in_shard_def)
  qed
  then have sel: "filter (read_matches hash (group_request i)) (st_log st0 @ group_writes st0) = r"
    using read_fresh_prefix[OF fresh'] by simp
  have "take 100 r = r"
    using group_writes_length[of st0] by (simp add: r_def take_all_iff order_trans[OF length_filter_le])
  then show ?thesis
    using sel i by (simp add: readCategoryMessages_def group_request_def Let_def)
qed

lemma group_reads_are_groups:
  "readCategoryMessages hash st (group_request i) = Inr b \<Longrightarrow> i < 3"
  by (auto simp: readCategoryMessages_def group_request_def split: if_splits)

lemma single_writes_distinct_global: "distinct (map (ev_global \<circ> snd) (single_writes g items))"
proof (induction g items rule: single_writes.induct)
  case (2 g sn ev rest)
  have "g \<notin> (ev_global \<circ> snd) ` set (single_writes (g + 1) rest)"
    using single_writes_global[of _ "g + 1" rest] by fastforce
  then show ?case using 2 by (simp add: to_timeline_def)
qed simp

lemma group_writes_streams: "fst ` set (group_writes st0) = group_stream ` {0..<100}"
proof -
  have "set (map fst (group_writes st0)) = group_stream ` {0..<100}"
    by (simp only: single_writes_streams) auto
  then show ?thesis by simp
qed

lemma group_member_expect:
  fixes hash :: "string \<Rightarrow> nat"
  assumes fresh: "\<forall>m \<in> set (st_log st0). sn_category (fst m) \<noteq> group_category" and i: "i < 3"
  defines "r \<equiv> filter (\<lambda>m. hash (sn_id (fst m)) mod 3 = i) (group_writes st0)"
  shows "member_expect (readCategoryMessages hash (st0\<lparr>st_log := st_log st0 @ group_writes st0\<rparr>) (group_request i)) \<longleftrightarrow>
           r \<noteq> [] \<and> length r < 100"
proof -
  have "r \<noteq> [] \<Longrightarrow> 0 < ev_global (snd (last r))"
    using group_writes_new[of "last r" st0] by (force simp: r_def dest: last_in_set)
  then show ?thesis
    using group_setup_reads[OF fresh i, of hash] by (auto simp: member_expect_def r_def)
qed

lemma group_member_ids_disjoint:
  fixes hash :: "string \<Rightarrow> nat"
  assumes "i \<noteq> j"
  shows "setIntersection ((ev_global \<circ> snd) ` set (filter (\<lambda>m. hash (sn_id (fst m)) mod 3 = i) (group_writes st0)))
                         ((ev_global \<circ> snd) ` set (filter (\<lambda>m. hash (sn_id (fst m)) mod 3 = j) (group_writes st0))) = {}"
proof -
  have "inj_on (ev_global \<circ> snd) (set (group_writes st0))"
    using single_writes_distinct_global[of "int (length (st_log st0)) + 1"
            "map (\<lambda>i. (group_stream i, test_event ''TestEvent'')) [0..<100]"]
    by (simp add: distinct_map)
  then show ?thesis using assms by (auto simp: setIntersection_def inj_on_def)
qed

lemma group_member_nonempty:
  fixes hash :: "string \<Rightarrow> nat"
  shows "filter (\<lambda>m. hash (sn_id (fst m)) mod 3 = i) (group_writes st0) \<noteq> [] \<longleftrightarrow>
   (\<exists>k < 100. hash (sn_id (group_stream k)) mod 3 = i)"
proof -
  have "(\<exists>m \<in> set (group_writes st0). hash (sn_id (fst m)) mod 3 = i) \<longleftrightarrow>
        (\<exists>sn \<in> fst ` set (group_writes st0). hash (sn_id sn) mod 3 = i)" by blast
  then show ?thesis by (auto simp: filter_empty_conv group_writes_streams)
qed

text \<open>
  C25.  Test ``Can segment fetching into consumer groups, each getting a
  different set of messages'' (lines 67--91) passes exactly when the hash of
  stream ids puts at least one of the 100 streams in each of the three shards:
  the id sets are always pairwise disjoint, but a member whose shard is empty
  reads no message, and a member whose shard holds all 100 streams reads a
  full batch that is not the tail.
\<close>

theorem reader_test_consumer_groups:
  fixes hash :: "string \<Rightarrow> nat"
  assumes fresh: "\<forall>m \<in> set (st_log st0). sn_category (fst m) \<noteq> group_category"
  shows "test_consumer_groups hash st0 \<longleftrightarrow> (\<forall>i < 3. \<exists>k < 100. hash (sn_id (group_stream k)) mod 3 = i)"
proof -
  let ?st = "st0\<lparr>st_log := st_log st0 @ group_writes st0\<rparr>"
  let ?r = "\<lambda>i. filter (\<lambda>m. hash (sn_id (fst m)) mod 3 = i) (group_writes st0)"
  let ?S = "\<lambda>i. \<exists>k < 100. hash (sn_id (group_stream k)) mod 3 = i"
  have ids: "member_ids (readCategoryMessages hash ?st (group_request i)) = (ev_global \<circ> snd) ` set (?r i)"
    if "i < 3" for i
    using group_setup_reads[OF fresh that, of hash] by (simp add: member_ids_def)
  have ex: "member_expect (readCategoryMessages hash ?st (group_request i)) \<longleftrightarrow> ?S i \<and> length (?r i) < 100"
    if "i < 3" for i
    using group_member_expect[OF fresh that, of hash] group_member_nonempty[of hash i st0] by simp
  have total: "length (?r 0) + length (?r 1) + length (?r 2) = 100"
    using filter_mod3_lengths[of "\<lambda>m. hash (sn_id (fst m))" "group_writes st0"] group_writes_length[of st0] by simp
  have pos: "0 < length (?r i)" if "?S i" for i
    using group_member_nonempty[of hash i st0] that by simp
  have lt: "length (?r 0) < 100 \<and> length (?r 1) < 100 \<and> length (?r 2) < 100"
    if s: "?S 0" "?S 1" "?S 2"
    using total pos[OF s(1)] pos[OF s(2)] pos[OF s(3)] by linarith
  have all3: "(\<forall>i < 3. ?S i) \<longleftrightarrow> ?S 0 \<and> ?S 1 \<and> ?S 2"
    by (rule all_less_3)
  have reads: "map (\<lambda>i. readCategoryMessages hash ?st (group_request i)) [0..<3] =
      [readCategoryMessages hash ?st (group_request 0), readCategoryMessages hash ?st (group_request 1),
       readCategoryMessages hash ?st (group_request 2)]"
    by (rule map_upt_3)
  have "test_consumer_groups hash st0 \<longleftrightarrow>
          (?S 0 \<and> length (?r 0) < 100) \<and> (?S 1 \<and> length (?r 1) < 100) \<and> (?S 2 \<and> length (?r 2) < 100)"
  proof -
    have lt3: "(0::nat) < 3" "(1::nat) < 3" "(2::nat) < 3" by simp_all
    have ne: "(0::nat) \<noteq> 1" "(0::nat) \<noteq> 2" "(1::nat) \<noteq> 2" by simp_all
    show ?thesis
      unfolding test_consumer_groups_def group_setup_log[OF fresh] sum.case Let_def reads list.map
        list.pred_inject nth_3 ex[OF lt3(1)] ex[OF lt3(2)] ex[OF lt3(3)] ids[OF lt3(1)] ids[OF lt3(2)] ids[OF lt3(3)]
        group_member_ids_disjoint[OF ne(1)] group_member_ids_disjoint[OF ne(2)] group_member_ids_disjoint[OF ne(3)]
      by (simp only: simp_thms list.pred_inject(1))
  qed
  also have "\<dots> \<longleftrightarrow> ?S 0 \<and> ?S 1 \<and> ?S 2"
    by (rule conj_pairs_iff[OF lt])
  finally show ?thesis by (simp only: all3)
qed
theorem reader_test_consumer_groups_witness:
  "test_consumer_groups (\<lambda>s. of_char (last s)) \<lparr>st_log = [], st_sql_condition = False\<rparr>"
proof -
  have "\<forall>i < 3. \<exists>k < 100. (\<lambda>s. of_char (last s) :: nat) (sn_id (group_stream k)) mod 3 = i"
    unfolding all_less_3
  proof (intro conjI)
    show "\<exists>k < 100. (\<lambda>s. of_char (last s) :: nat) (sn_id (group_stream k)) mod 3 = 0"
      by (rule exI[of _ 0]) (simp add: group_stream_def show_int_def nat_digits.simps[of 0])
    show "\<exists>k < 100. (\<lambda>s. of_char (last s) :: nat) (sn_id (group_stream k)) mod 3 = 1"
      by (rule exI[of _ 1]) (simp add: group_stream_def show_int_def nat_digits.simps[of "Suc 0"])
    show "\<exists>k < 100. (\<lambda>s. of_char (last s) :: nat) (sn_id (group_stream k)) mod 3 = 2"
      by (rule exI[of _ 2]) (simp add: group_stream_def show_int_def nat_digits.simps[of 2])
  qed
  then show ?thesis using reader_test_consumer_groups[of "\<lparr>st_log = [], st_sql_condition = False\<rparr>"] by simp
qed

subsection \<open>Lemmas: the consumer loop\<close>

lemma store_wf_sorted:
  "store_wf st \<Longrightarrow> sorted_wrt (\<lambda>x y. ev_global (snd x) < ev_global (snd y)) (st_log st)"
proof -
  assume "store_wf st"
  then have g: "map (ev_global \<circ> snd) (st_log st) = map (\<lambda>k. int k + 1) [0..<length (st_log st)]"
    by (simp add: store_wf_def)
  have "sorted_wrt (<) (map (\<lambda>k. int k + 1) [0..<length (st_log st)])"
    by (simp add: sorted_wrt_map sorted_wrt_iff_nth_less)
  then have "sorted_wrt (<) (map (ev_global \<circ> snd) (st_log st))" by (simp only: g)
  then show ?thesis by (simp add: sorted_wrt_map o_def)
qed

lemma sorted_wrt_last:
  "sorted_wrt R ys \<Longrightarrow> x \<in> set ys \<Longrightarrow> x \<noteq> last ys \<Longrightarrow> R x (last ys)"
proof (induction ys)
  case Nil
  then show ?case by simp
next
  case (Cons y ys)
  show ?case
  proof (cases "ys = []")
    case True
    then show ?thesis using Cons.prems by simp
  next
    case False
    then have "last ys \<in> set ys" by simp
    then show ?thesis using Cons False by auto
  qed
qed

lemma filter_after_take:
  fixes g :: "'a \<Rightarrow> int"
  assumes sorted: "sorted_wrt (\<lambda>x y. g x < g y) xs" and b: "0 < b" "b \<le> length xs"
  shows "filter (\<lambda>x. g (last (take b xs)) + 1 \<le> g x) xs = drop b xs"
proof -
  let ?l = "last (take b xs)"
  have s2: "sorted_wrt (\<lambda>x y. g x < g y) (take b xs @ drop b xs)" using sorted by simp
  have ne: "take b xs \<noteq> []" using b by (cases xs) auto
  have lin: "?l \<in> set (take b xs)" using ne by simp
  have front: "\<not> (g ?l + 1 \<le> g x)" if "x \<in> set (take b xs)" for x
  proof (cases "x = ?l")
    case True
    then show ?thesis by simp
  next
    case False
    have "sorted_wrt (\<lambda>x y. g x < g y) (take b xs)" using s2 by (simp add: sorted_wrt_append)
    from sorted_wrt_last[OF this that False] show ?thesis by simp
  qed
  have after: "g ?l + 1 \<le> g x" if "x \<in> set (drop b xs)" for x
  proof -
    have "g ?l < g x" using s2 lin that unfolding sorted_wrt_append by blast
    then show ?thesis by simp
  qed
  have "filter (\<lambda>x. g ?l + 1 \<le> g x) (take b xs) = []" using front by (simp add: filter_empty_conv)
  moreover have "filter (\<lambda>x. g ?l + 1 \<le> g x) (drop b xs) = drop b xs" using after by (simp add: filter_id_conv)
  ultimately show ?thesis by (metis append_take_drop_id filter_append self_append_conv2)
qed

lemma read_matches_after:
  assumes "l \<in> set (filter (read_matches hash req) xs)"
  shows "read_matches hash (req\<lparr>rq_from := ev_global (snd l) + 1\<rparr>) m \<longleftrightarrow>
           read_matches hash req m \<and> ev_global (snd l) + 1 \<le> ev_global (snd m)"
  using assms by (auto simp: read_matches_def)

lemma filter_next_batch:
  assumes wf: "store_wf st" and b: "0 < rq_batch req"
    and full: "rq_batch req \<le> length (filter (read_matches hash req) (st_log st))"
  shows "filter (read_matches hash (req\<lparr>rq_from := ev_global (snd (last (take (rq_batch req)
             (filter (read_matches hash req) (st_log st))))) + 1\<rparr>)) (st_log st) =
         drop (rq_batch req) (filter (read_matches hash req) (st_log st))"
proof -
  let ?xs = "filter (read_matches hash req) (st_log st)"
  let ?l = "last (take (rq_batch req) ?xs)"
  have ne: "take (rq_batch req) ?xs \<noteq> []" using b full by auto
  have lin: "?l \<in> set ?xs" using ne by (meson in_set_takeD last_in_set)
  have sorted: "sorted_wrt (\<lambda>x y. ev_global (snd x) < ev_global (snd y)) ?xs"
    using store_wf_sorted[OF wf] by (rule sorted_wrt_filter)
  have "filter (read_matches hash (req\<lparr>rq_from := ev_global (snd ?l) + 1\<rparr>)) (st_log st) =
        filter (\<lambda>m. read_matches hash req m \<and> ev_global (snd ?l) + 1 \<le> ev_global (snd m)) (st_log st)"
    by (rule filter_cong[OF refl], rule read_matches_after[OF lin])
  also have "\<dots> = filter (\<lambda>m. ev_global (snd ?l) + 1 \<le> ev_global (snd m)) ?xs"
    by (simp add: filter_filter)
  also have "\<dots> = drop (rq_batch req) ?xs"
    using filter_after_take[of "\<lambda>m. ev_global (snd m)", OF sorted b full] .
  finally show ?thesis .
qed

lemma readCategoryMessages_ok:
  "read_ok st req \<Longrightarrow> readCategoryMessages hash st req =
     Inr \<lparr>b_messages = take (rq_batch req) (filter (read_matches hash req) (st_log st)),
          b_checkpoint = (if take (rq_batch req) (filter (read_matches hash req) (st_log st)) = [] then rq_from req
                          else ev_global (snd (last (take (rq_batch req) (filter (read_matches hash req) (st_log st)))))),
          b_isTail = length (take (rq_batch req) (filter (read_matches hash req) (st_log st))) < rq_batch req\<rparr>"
  by (auto simp: readCategoryMessages_def read_ok_def Let_def split: option.splits)

text \<open>
  The consumer loop ends and delivers every message: on a well-formed store,
  for a read that does not fail and a positive batch size, one round per batch
  plus one for the tail is enough fuel, the loop delivers exactly the messages
  the read selects, in log order, and the checkpoint of the consumer group is
  the global position of the last of them (unchanged when there is none).
\<close>

lemma consume_Suc_full:
  assumes ok: "read_ok st req" and b: "0 < rq_batch req"
    and full: "rq_batch req \<le> length (filter (read_matches hash req) (st_log st))"
  defines "ms \<equiv> take (rq_batch req) (filter (read_matches hash req) (st_log st))"
  shows "consume (Suc n) hash st req grp cps =
           (case consume n hash st (req\<lparr>rq_from := ev_global (snd (last ms)) + 1\<rparr>) grp
                   (checkpoint_write cps (rq_category req) grp (ev_global (snd (last ms)))) of
              None \<Rightarrow> None
            | Some (Inl err) \<Rightarrow> Some (Inl err)
            | Some (Inr (ms', cps'')) \<Rightarrow> Some (Inr (ms @ ms', cps'')))"
proof -
  have ne: "ms \<noteq> []" and nt: "\<not> length ms < rq_batch req" using b full by (auto simp: ms_def)
  show ?thesis
    using readCategoryMessages_ok[OF ok, of hash] ne nt
    by (simp add: ms_def Let_def split: option.split sum.split)
qed

lemma fuel_after_batch: "0 < b \<Longrightarrow> b \<le> l \<Longrightarrow> l div b < Suc n \<Longrightarrow> (l - b) div b < n"
  by (simp add: le_div_geq)

text \<open>The request of the next round after a full batch: it selects the rest of the messages and needs one round less.\<close>

lemma consume_next_request:
  assumes wf: "store_wf st" and b: "0 < rq_batch req" and ok: "read_ok st req"
    and full: "rq_batch req \<le> length (filter (read_matches hash req) (st_log st))"
    and fuel: "length (filter (read_matches hash req) (st_log st)) div rq_batch req < Suc n"
  defines "req' \<equiv> req\<lparr>rq_from := ev_global (snd (last (take (rq_batch req) (filter (read_matches hash req) (st_log st))))) + 1\<rparr>"
  shows "filter (read_matches hash req') (st_log st) = drop (rq_batch req) (filter (read_matches hash req) (st_log st)) \<and>
         read_ok st req' \<and> rq_batch req' = rq_batch req \<and> rq_category req' = rq_category req \<and>
         length (filter (read_matches hash req') (st_log st)) div rq_batch req' < n"
proof -
  have next_eq: "filter (read_matches hash req') (st_log st) = drop (rq_batch req) (filter (read_matches hash req) (st_log st))"
    unfolding req'_def by (rule filter_next_batch[OF wf b full])
  moreover have "read_ok st req'" "rq_batch req' = rq_batch req" "rq_category req' = rq_category req"
    using ok by (simp_all add: req'_def read_ok_def)
  ultimately show ?thesis using fuel_after_batch[OF b full fuel] by simp
qed

lemma consume_complete:
  assumes wf: "store_wf st" and b: "0 < rq_batch req"
    and ok: "read_ok st req"
    and fuel: "length (filter (read_matches hash req) (st_log st)) div rq_batch req < n"
  shows "consume n hash st req grp cps =
           Some (Inr (filter (read_matches hash req) (st_log st),
             (if filter (read_matches hash req) (st_log st) = [] then cps
              else checkpoint_write cps (rq_category req) grp
                     (ev_global (snd (last (filter (read_matches hash req) (st_log st))))))))"
  using b ok fuel
proof (induction n arbitrary: req cps)
  case 0
  then show ?case by simp
next
  case (Suc n)
  let ?xs = "filter (read_matches hash req) (st_log st)"
  let ?ms = "take (rq_batch req) ?xs"
  show ?case
  proof (cases "length ?ms < rq_batch req")
    case True
    then have "?ms = ?xs" by simp
    then show ?thesis using readCategoryMessages_ok[OF Suc.prems(2), of hash] True by (simp add: Let_def)
  next
    case False
    then have full: "rq_batch req \<le> length ?xs" by simp
    have ne: "?ms \<noteq> []" using full Suc.prems(1) by auto
    define req' where "req' = req\<lparr>rq_from := ev_global (snd (last ?ms)) + 1\<rparr>"
    define cps1 where "cps1 = checkpoint_write cps (rq_category req) grp (ev_global (snd (last ?ms)))"
    from consume_next_request[OF wf Suc.prems(1,2) full Suc.prems(3)]
    have next_eq: "filter (read_matches hash req') (st_log st) = drop (rq_batch req) ?xs"
      and ok': "read_ok st req'" and bb: "rq_batch req' = rq_batch req" and cc: "rq_category req' = rq_category req"
      and fuel': "length (filter (read_matches hash req') (st_log st)) div rq_batch req' < n"
      unfolding req'_def[symmetric] by blast+
    have rec: "consume n hash st req' grp cps1 =
      Some (Inr (drop (rq_batch req) ?xs,
        (if drop (rq_batch req) ?xs = [] then cps1
         else checkpoint_write cps1 (rq_category req) grp (ev_global (snd (last (drop (rq_batch req) ?xs)))))))"
      using Suc.IH[OF _ ok' fuel', of cps1] Suc.prems(1) unfolding next_eq bb cc by simp
    have "consume (Suc n) hash st req grp cps =
      Some (Inr (?ms @ drop (rq_batch req) ?xs,
        (if drop (rq_batch req) ?xs = [] then cps1
         else checkpoint_write cps1 (rq_category req) grp (ev_global (snd (last (drop (rq_batch req) ?xs)))))))"
      using consume_Suc_full[OF Suc.prems(2,1) full, of n grp cps] rec
      unfolding req'_def cps1_def by simp
    also have "\<dots> = Some (Inr (?xs,
        (if ?xs = [] then cps
         else checkpoint_write cps (rq_category req) grp (ev_global (snd (last ?xs))))))"
      using ne by (simp add: cps1_def checkpoint_write_def last_append)
    finally show ?thesis .
  qed
qed

text \<open>With a batch size of zero every batch is empty and none is the tail.\<close>

lemma consume_batch_zero:
  assumes ok: "read_ok st req" and zero: "rq_batch req = 0"
  shows "consume n hash st req grp cps = None"
  using ok zero
proof (induction n arbitrary: req cps)
  case 0
  then show ?case by simp
next
  case (Suc n)
  have rd: "readCategoryMessages hash st req = Inr \<lparr>b_messages = [], b_checkpoint = rq_from req, b_isTail = False\<rparr>"
    using readCategoryMessages_ok[OF Suc.prems(1), of hash] Suc.prems(2) by simp
  have "read_ok st (req\<lparr>rq_from := rq_from req + 1\<rparr>)" using Suc.prems(1) by (simp add: read_ok_def)
  moreover have "rq_batch (req\<lparr>rq_from := rq_from req + 1\<rparr>) = 0" using Suc.prems(2) by simp
  ultimately have "consume n hash st (req\<lparr>rq_from := rq_from req + 1\<rparr>) grp cps = None" by (rule Suc.IH)
  then show ?case using rd by simp
qed

lemma test_setup_wf:
  assumes wf: "store_wf st0" and su: "test_setup st0 = Inr st"
  shows "store_wf st"
proof -
  from su obtain v st1 v' where
    w1: "write_messages st0 test_stream (replicate 100 (test_event ''TestEvent'')) (-1) = Inr (v, st1)" and
    w2: "writeSingleMessage st1 test_stream (test_event ''ExclusiveEvent'') None = Inr (v', st)"
    by (auto simp: test_setup_def split: sum.splits)
  have "store_wf st1" by (rule store_wf_write[OF wf w1])
  then show ?thesis using w2 unfolding writeSingleMessage_def by (rule store_wf_write)
qed

subsection \<open>Lemmas: checkpoints and shards\<close>

lemma filter_threshold_drop:
  fixes g :: "'a \<Rightarrow> int"
  assumes "sorted_wrt (\<lambda>x y. g x < g y) xs"
  shows "filter (\<lambda>x. c \<le> g x) xs = drop (length (filter (\<lambda>x. g x < c) xs)) xs"
  using assms
proof (induction xs)
  case Nil
  then show ?case by simp
next
  case (Cons x xs)
  show ?case
  proof (cases "c \<le> g x")
    case True
    have all: "\<forall>y \<in> set xs. c \<le> g y" using Cons.prems True by fastforce
    then have "filter (\<lambda>y. g y < c) xs = []" by (auto simp: filter_empty_conv)
    moreover have "filter (\<lambda>y. c \<le> g y) xs = xs" using all by simp
    ultimately show ?thesis using True by simp
  next
    case False
    then show ?thesis using Cons by simp
  qed
qed

lemma sorted_wrt_nth_mono:
  fixes g :: "'a \<Rightarrow> int"
  assumes "sorted_wrt (\<lambda>x y. g x < g y) xs" "i \<le> j" "j < length xs"
  shows "g (xs ! i) \<le> g (xs ! j)"
proof (cases "i = j")
  case False
  with assms have "g (xs ! i) < g (xs ! j)" by (simp add: sorted_wrt_iff_nth_less)
  then show ?thesis by simp
qed simp

lemma last_take_nth: "take b zs \<noteq> [] \<Longrightarrow> last (take b zs) = zs ! (min b (length zs) - 1)"
  by (simp add: last_conv_nth min_def)

lemma last_take_drop_mono:
  fixes g :: "'a \<Rightarrow> int"
  assumes sorted: "sorted_wrt (\<lambda>x y. g x < g y) xs" and ne: "take b (drop k xs) \<noteq> []"
  shows "take b xs \<noteq> [] \<and> g (last (take b xs)) \<le> g (last (take b (drop k xs)))"
proof -
  have b: "0 < b" and k: "k < length xs" using ne by auto
  have "last (take b xs) = xs ! (min b (length xs) - 1)"
    using last_take_nth[of b xs] b k by (cases xs) simp_all
  moreover have "last (take b (drop k xs)) = xs ! (k + (min b (length xs - k) - 1))"
    using last_take_nth[OF ne] k by simp
  moreover have "g (xs ! (min b (length xs) - 1)) \<le> g (xs ! (k + (min b (length xs - k) - 1)))"
    by (rule sorted_wrt_nth_mono[OF sorted]) (use b k in auto)
  ultimately show ?thesis using b k by (cases xs) simp_all
qed

lemma read_matches_from_mono:
  "f1 \<le> f2 \<Longrightarrow> read_matches hash (req\<lparr>rq_from := f2\<rparr>) m \<longleftrightarrow>
     read_matches hash (req\<lparr>rq_from := f1\<rparr>) m \<and> f2 \<le> ev_global (snd m)"
  by (auto simp: read_matches_def)

lemma readCategoryMessages_Inr_ok: "readCategoryMessages hash st req = Inr b \<Longrightarrow> read_ok st req"
  by (auto simp: readCategoryMessages_def read_ok_def split: if_splits option.splits)

lemma read_checkpoint_mono:
  assumes wf: "store_wf st" and le: "f1 \<le> f2"
    and r1: "readCategoryMessages hash st (req\<lparr>rq_from := f1\<rparr>) = Inr b1"
    and r2: "readCategoryMessages hash st (req\<lparr>rq_from := f2\<rparr>) = Inr b2"
  shows "b_checkpoint b1 \<le> b_checkpoint b2"
proof -
  let ?g = "\<lambda>m. ev_global (snd m)"
  let ?b = "rq_batch req"
  let ?xs = "filter (read_matches hash (req\<lparr>rq_from := f1\<rparr>)) (st_log st)"
  let ?ys = "filter (read_matches hash (req\<lparr>rq_from := f2\<rparr>)) (st_log st)"
  have ok1: "read_ok st (req\<lparr>rq_from := f1\<rparr>)" by (rule readCategoryMessages_Inr_ok[OF r1])
  have ok2: "read_ok st (req\<lparr>rq_from := f2\<rparr>)" by (rule readCategoryMessages_Inr_ok[OF r2])
  have "Inr b1 = readCategoryMessages hash st (req\<lparr>rq_from := f1\<rparr>)" using r1 by simp
  then have c1: "b_checkpoint b1 = (if take ?b ?xs = [] then f1 else ?g (last (take ?b ?xs)))"
    by (simp add: readCategoryMessages_ok[OF ok1])
  have "Inr b2 = readCategoryMessages hash st (req\<lparr>rq_from := f2\<rparr>)" using r2 by simp
  then have c2: "b_checkpoint b2 = (if take ?b ?ys = [] then f2 else ?g (last (take ?b ?ys)))"
    by (simp add: readCategoryMessages_ok[OF ok2])
  have sorted: "sorted_wrt (\<lambda>x y. ?g x < ?g y) ?xs"
    using store_wf_sorted[OF wf] by (rule sorted_wrt_filter)
  have "?ys = filter (\<lambda>m. read_matches hash (req\<lparr>rq_from := f1\<rparr>) m \<and> f2 \<le> ?g m) (st_log st)"
    by (rule filter_cong[OF refl], rule read_matches_from_mono[OF le])
  also have "\<dots> = filter (\<lambda>m. f2 \<le> ?g m) ?xs" by (simp add: filter_filter)
  finally have ys: "?ys = filter (\<lambda>m. f2 \<le> ?g m) ?xs" .
  show ?thesis
  proof (cases "take ?b ?ys = []")
    case False
    have "?ys = drop (length (filter (\<lambda>x. ?g x < f2) ?xs)) ?xs"
      unfolding ys by (rule filter_threshold_drop[OF sorted])
    with False last_take_drop_mono[OF sorted, of ?b "length (filter (\<lambda>x. ?g x < f2) ?xs)"]
    show ?thesis using c1 c2 by simp
  next
    case True
    show ?thesis
    proof (cases "take ?b ?xs = []")
      case False
      then have "?ys = []" using True by auto
      then have "\<forall>m \<in> set ?xs. ?g m < f2" unfolding ys by (auto simp: filter_empty_conv)
      moreover have "last (take ?b ?xs) \<in> set ?xs" using False by (meson in_set_takeD last_in_set)
      ultimately show ?thesis using c1 c2 True False by fastforce
    qed (use c1 c2 True le in simp)
  qed
qed

lemma shard_partition_mset:
  fixes h :: "'a \<Rightarrow> nat"
  assumes K: "0 < K"
  shows "(\<Sum>i<K. mset (filter (\<lambda>m. P m \<and> h m mod K = i) xs)) = mset (filter P xs)"
proof (induction xs)
  case Nil
  then show ?case by simp
next
  case (Cons x xs)
  have "(\<Sum>i<K. mset (filter (\<lambda>m. P m \<and> h m mod K = i) (x # xs))) =
        (\<Sum>i<K. (if h x mod K = i then (if P x then {#x#} else {#}) else {#}) +
                  mset (filter (\<lambda>m. P m \<and> h m mod K = i) xs))"
    by (rule sum.cong) auto
  also have "\<dots> = (\<Sum>i<K. if h x mod K = i then (if P x then {#x#} else {#}) else {#}) +
                  (\<Sum>i<K. mset (filter (\<lambda>m. P m \<and> h m mod K = i) xs))"
    by (rule sum.distrib)
  also have "(\<Sum>i<K. if h x mod K = i then (if P x then {#x#} else {#}) else {#}) = (if P x then {#x#} else {#})"
    using K by (subst sum.delta') auto
  finally show ?case using Cons.IH by simp
qed

lemma read_matches_member:
  "rq_member req = Some i \<Longrightarrow> rq_size req = Some K \<Longrightarrow>
     read_matches hash req m \<longleftrightarrow>
       read_matches hash (req\<lparr>rq_member := None, rq_size := None\<rparr>) m \<and> hash (sn_id (fst m)) mod K = i"
  by (simp add: read_matches_def in_shard_def)

lemma read_checkpoint_ge_from:
  "readCategoryMessages hash st req = Inr b \<Longrightarrow> rq_from req \<le> b_checkpoint b"
proof -
  assume r: "readCategoryMessages hash st req = Inr b"
  have ok: "read_ok st req" by (rule readCategoryMessages_Inr_ok[OF r])
  have "Inr b = readCategoryMessages hash st req" using r by simp
  then have b: "b_checkpoint b = (if take (rq_batch req) (filter (read_matches hash req) (st_log st)) = [] then rq_from req
                 else ev_global (snd (last (take (rq_batch req) (filter (read_matches hash req) (st_log st))))))"
    by (simp add: readCategoryMessages_ok[OF ok])
  show ?thesis
  proof (cases "take (rq_batch req) (filter (read_matches hash req) (st_log st)) = []")
    case False
    then have "last (take (rq_batch req) (filter (read_matches hash req) (st_log st))) \<in> set (filter (read_matches hash req) (st_log st))"
      by (meson in_set_takeD last_in_set)
    then show ?thesis using b False by (simp add: read_matches_def)
  qed (use b in simp)
qed

lemma consume_checkpoint_mono:
  "consume n hash st req grp cps = Some (Inr (ms, cps')) \<Longrightarrow> cps (rq_category req, grp) = Some p \<Longrightarrow>
   p < rq_from req \<Longrightarrow> \<exists>p'. cps' (rq_category req, grp) = Some p' \<and> p \<le> p'"
proof (induction n arbitrary: req cps p ms)
  case 0
  then show ?case by simp
next
  case (Suc n)
  obtain b where rd: "readCategoryMessages hash st req = Inr b"
    using Suc.prems(1) by (cases "readCategoryMessages hash st req") auto
  have ge: "rq_from req \<le> b_checkpoint b" by (rule read_checkpoint_ge_from[OF rd])
  define cps1 where "cps1 = (if b_messages b = [] then cps else checkpoint_write cps (rq_category req) grp (b_checkpoint b))"
  obtain p1 where p1: "cps1 (rq_category req, grp) = Some p1" and le1: "p \<le> p1" and lt1: "p1 \<le> b_checkpoint b"
    using Suc.prems(2,3) ge by (cases "b_messages b = []") (auto simp: cps1_def checkpoint_write_def)
  show ?case
  proof (cases "b_isTail b")
    case True
    then have "cps' = cps1" using Suc.prems(1) rd unfolding cps1_def by (auto simp: Let_def)
    then show ?thesis using p1 le1 by simp
  next
    case False
    then obtain ms' where rec: "consume n hash st (req\<lparr>rq_from := b_checkpoint b + 1\<rparr>) grp cps1 = Some (Inr (ms', cps'))"
      using Suc.prems(1) rd by (auto simp: cps1_def Let_def split: option.splits sum.splits)
    from Suc.IH[OF rec] p1 lt1 obtain p' where "cps' (rq_category req, grp) = Some p'" "p1 \<le> p'" by auto
    then show ?thesis using le1 by auto
  qed
qed

subsection \<open>The consumer loop as theorems\<close>

text \<open>
  C26.  A consumer of the reader test's category, reading with the test's
  batch size of 10 from position 0, ends within eleven rounds on every store
  in which the category is new: it delivers the 101 messages of the setup, in
  order and each once, and leaves the group's checkpoint at the global position
  of the last one.
\<close>

theorem consumer_reads_test_category:
  assumes fresh: "\<forall>m \<in> set (st_log st0). sn_category (fst m) \<noteq> test_category"
    and wf: "store_wf st0" and fuel: "11 \<le> n"
  shows "\<exists>st. test_setup st0 = Inr st \<and>
     consume n hash st (test_request None) grp cps =
       Some (Inr (map (Pair test_stream) (stamp 0 (int (length (st_log st0)) + 1)
                    (replicate 100 (test_event ''TestEvent'') @ [test_event ''ExclusiveEvent''])),
                  cps((test_category, grp) \<mapsto> int (length (st_log st0)) + 101)))"
proof -
  let ?L = "length (st_log st0)"
  let ?new = "map (Pair test_stream) (stamp 0 (int ?L + 1)
                 (replicate 100 (test_event ''TestEvent'') @ [test_event ''ExclusiveEvent'']))"
  let ?st = "st0\<lparr>st_log := st_log st0 @ ?new\<rparr>"
  have su: "test_setup st0 = Inr ?st" by (rule test_setup_log[OF fresh])
  have wf': "store_wf ?st" by (rule test_setup_wf[OF wf su])
  have sel: "filter (read_matches hash (test_request None)) (st_log ?st) = ?new"
    using test_selection[OF fresh] by simp
  have ok: "read_ok ?st (test_request None)" by (simp add: read_ok_def test_request_def)
  have b: "0 < rq_batch (test_request None :: string read_request)" by (simp add: test_request_def)
  have fl: "length (filter (read_matches hash (test_request None)) (st_log ?st)) div
              rq_batch (test_request None :: string read_request) < n"
  proof -
    have "rq_batch (test_request None :: string read_request) = 10" by (simp add: test_request_def)
    then show ?thesis unfolding sel using fuel by simp
  qed
  have lst: "ev_global (snd (last ?new)) = int ?L + 101"
    by (simp add: stamp_append last_map to_timeline_def)
  have "consume n hash ?st (test_request None) grp cps =
          Some (Inr (?new, checkpoint_write cps test_category grp (int ?L + 101)))"
  proof -
    have "consume n hash ?st (test_request None) grp cps =
      Some (Inr (?new, if ?new = [] then cps
                       else checkpoint_write cps (rq_category (test_request None :: string read_request)) grp
                              (ev_global (snd (last ?new)))))"
      using consume_complete[OF wf' b ok fl, of grp cps] unfolding sel .
    moreover have "rq_category (test_request None :: string read_request) = test_category"
      by (simp add: test_request_def)
    ultimately show ?thesis using lst by simp
  qed
  then show ?thesis using su by (simp add: checkpoint_write_def)
qed

theorem consumer_reads_test_category_witness:
  "\<exists>st. test_setup \<lparr>st_log = [], st_sql_condition = False\<rparr> = Inr st \<and>
     consume 11 (\<lambda>_. 0) st (test_request None) ''g'' Map.empty =
       Some (Inr (map (Pair test_stream) (stamp 0 1
                    (replicate 100 (test_event ''TestEvent'') @ [test_event ''ExclusiveEvent''])),
                  [(test_category, ''g'') \<mapsto> 101]))"
  using consumer_reads_test_category[of "\<lparr>st_log = [], st_sql_condition = False\<rparr>" 11 "\<lambda>_. 0" "''g''" Map.empty]
  by simp

text \<open>
  With a batch size of zero, a consumer of the reader test's category
  never ends, on any store: every batch is empty and none is the tail, so no
  amount of fuel returns a result.  The spec does not exclude this batch size.
\<close>

theorem consumer_test_batch_zero:
  "consume n hash st ((test_request None)\<lparr>rq_batch := 0\<rparr>) grp cps = None"
  by (rule consume_batch_zero) (simp_all add: read_ok_def test_request_def)

subsection \<open>Checkpoints and shards as theorems\<close>

text \<open>
  C28.  Checkpoint monotonicity (spec section 8): on a well-formed store, two
  reads of the reader test's category with the same condition and batch, the
  second from a position no smaller than the first, return checkpoints in the
  same order.
\<close>

theorem test_reads_checkpoint_monotone:
  assumes wf: "store_wf st" and le: "f1 \<le> f2"
    and r1: "readCategoryMessages hash st ((test_request c)\<lparr>rq_from := f1\<rparr>) = Inr b1"
    and r2: "readCategoryMessages hash st ((test_request c)\<lparr>rq_from := f2\<rparr>) = Inr b2"
  shows "b_checkpoint b1 \<le> b_checkpoint b2"
  by (rule read_checkpoint_mono[OF wf le r1 r2])

theorem test_reads_checkpoint_monotone_witness:
  "\<exists>b1 b2.
     readCategoryMessages (\<lambda>_. 0) \<lparr>st_log = map (Pair test_stream) (stamp 0 1 (replicate 3 (test_event ''TestEvent''))),
                                    st_sql_condition = False\<rparr> ((test_request None)\<lparr>rq_from := 0\<rparr>) = Inr b1 \<and>
     readCategoryMessages (\<lambda>_. 0) \<lparr>st_log = map (Pair test_stream) (stamp 0 1 (replicate 3 (test_event ''TestEvent''))),
                                    st_sql_condition = False\<rparr> ((test_request None)\<lparr>rq_from := 2\<rparr>) = Inr b2 \<and>
     b_checkpoint b1 \<le> b_checkpoint b2"
proof -
  define st :: "string store" where
    "st = \<lparr>st_log = map (Pair test_stream) (stamp 0 1 (replicate 3 (test_event ''TestEvent''))),
           st_sql_condition = False\<rparr>"
  have wf: "store_wf st"
    by (simp add: st_def store_wf_def stream_messages_def test_stream_def test_event_def to_timeline_def
          eval_nat_numeral upt_conv_Cons)
  have "\<exists>b. readCategoryMessages (\<lambda>_. 0) st ((test_request None)\<lparr>rq_from := 0\<rparr>) = Inr b"
    by (simp add: readCategoryMessages_def test_request_def Let_def)
  then obtain b1 where r1: "readCategoryMessages (\<lambda>_. 0) st ((test_request None)\<lparr>rq_from := 0\<rparr>) = Inr b1" ..
  have "\<exists>b. readCategoryMessages (\<lambda>_. 0) st ((test_request None)\<lparr>rq_from := 2\<rparr>) = Inr b"
    by (simp add: readCategoryMessages_def test_request_def Let_def)
  then obtain b2 where r2: "readCategoryMessages (\<lambda>_. 0) st ((test_request None)\<lparr>rq_from := 2\<rparr>) = Inr b2" ..
  have "b_checkpoint b1 \<le> b_checkpoint b2"
    using test_reads_checkpoint_monotone[OF wf _ r1 r2] by simp
  then show ?thesis using r1 r2 by (auto simp: st_def)
qed

text \<open>
  C29.  Partition completeness (spec sections 4.5 and 8): for every store and
  every hash of stream ids, the messages that the three members of the test's
  group of three select, counted with multiplicity, are exactly the messages
  the same read without a group selects: each message goes to exactly one
  member.
\<close>

theorem group_reads_partition:
  "(\<Sum>i<3. mset (filter (read_matches hash (group_request i)) (st_log st))) =
     mset (filter (read_matches hash ((group_request 0)\<lparr>rq_member := None, rq_size := None\<rparr>)) (st_log st))"
proof -
  let ?base = "(group_request 0 :: 'f read_request)\<lparr>rq_member := None, rq_size := None\<rparr>"
  have "filter (read_matches hash (group_request i)) (st_log st) =
          filter (\<lambda>m. read_matches hash ?base m \<and> hash (sn_id (fst m)) mod 3 = i) (st_log st)" for i
  proof (rule filter_cong[OF refl])
    fix m
    have "read_matches hash (group_request i) m \<longleftrightarrow>
            read_matches hash ((group_request i :: 'f read_request)\<lparr>rq_member := None, rq_size := None\<rparr>) m \<and>
            hash (sn_id (fst m)) mod 3 = i"
      by (rule read_matches_member) (simp_all add: group_request_def)
    moreover have "(group_request i :: 'f read_request)\<lparr>rq_member := None, rq_size := None\<rparr> = ?base"
      by (simp add: group_request_def)
    ultimately show "read_matches hash (group_request i) m \<longleftrightarrow>
                       read_matches hash ?base m \<and> hash (sn_id (fst m)) mod 3 = i" by simp
  qed
  then show ?thesis
    using shard_partition_mset[of 3 "read_matches hash ?base" "\<lambda>m. hash (sn_id (fst m))" "st_log st"] by simp
qed

end
