(* ===== verification/DocsConfig.thy ===== *)
theory DocsConfig
  imports Json
begin

text \<open>
  The documentation site's configuration, \<^verbatim>\<open>docs/docusaurus.config.js\<close>: a
  data module that builds one object and exports it.  The object is the
  record \<open>site_config\<close>, its nested objects are records and its item lists are
  datatypes with one constructor per kind of item, and \<open>config\<close> is the
  object itself; the one computed field, the copyright line, depends on the
  current year, which is a parameter.  Strings are byte lists, so the three
  non-ASCII characters of the copyright line are their UTF-8 bytes.

  What Docusaurus does with the object (routes, link resolution, the build)
  is the framework's and is not modelled; the lemma below reads only the
  fields of the object.
\<close>

subsection \<open>The configuration object\<close>

text \<open>The values of \<open>onBrokenLinks\<close> and \<open>onBrokenMarkdownLinks\<close>.\<close>

datatype report_severity = SevIgnore | SevLog | SevWarn | SevThrow

record i18n_config =
  defaultLocale :: string
  locales :: "string list"

record docs_options =
  sidebarPath :: string
  editUrl :: string

record preset_options =
  preset_name :: string
  preset_docs :: docs_options
  customCss :: string

datatype item_position = PosLeft | PosRight

text \<open>Navbar items: a doc item (\<open>type: "doc"\<close>) or a link item (\<open>href\<close>).\<close>

datatype navbar_item =
    NavDoc (nav_docId: string) (nav_position: item_position) (nav_label: string)
  | NavHref (nav_href: string) (nav_label: string) (nav_position: item_position)

record navbar_config =
  navbar_title :: string
  logo_alt :: string
  logo_src :: string
  navbar_items :: "navbar_item list"

text \<open>Footer items: an internal link (\<open>to\<close>) or an external one (\<open>href\<close>).\<close>

datatype footer_item =
    FooterTo (fi_label: string) (fi_to: string)
  | FooterHref (fi_label: string) (fi_href: string)

record footer_column =
  column_title :: string
  column_items :: "footer_item list"

record footer_config =
  footer_style :: string
  footer_links :: "footer_column list"
  copyright :: string

record theme_config =
  social_image :: string
  tc_navbar :: navbar_config
  tc_footer :: footer_config
  prism_theme :: string
  prism_darkTheme :: string

record site_config =
  site_title :: string
  tagline :: string
  favicon :: string
  url :: string
  baseUrl :: string
  organizationName :: string
  projectName :: string
  onBrokenLinks :: report_severity
  onBrokenMarkdownLinks :: report_severity
  i18n :: i18n_config
  presets :: "preset_options list"
  themeConfig :: theme_config

text \<open>The two \<open>require\<close>d code themes (lines 4--5).\<close>

definition lightCodeTheme :: string where
  "lightCodeTheme = ''prism-react-renderer/themes/github''"

definition darkCodeTheme :: string where
  "darkCodeTheme = ''prism-react-renderer/themes/dracula''"

text \<open>
  The copyright line (line 113) for the year \<open>new Date().getFullYear()\<close>;
  the copyright sign is the bytes C2 A9, \<open>eth\<close> is C3 B0 and \<open>o\<close> with
  diaeresis is C3 B6.
\<close>

definition copyright_line :: "nat \<Rightarrow> string" where
  "copyright_line year =
     ''Copyright '' @ map char_of [194, 169 :: nat] @ '' '' @ show_int (int year) @
     '' Einar Nor'' @ map char_of [195, 176 :: nat] @ ''fj'' @ map char_of [195, 182, 195, 176 :: nat] @
     ''. Built with Docusaurus.''"

definition navbar :: navbar_config where
  "navbar =
     \<lparr>navbar_title = ''EquinoxJS'', logo_alt = ''EquinoxJS Logo'', logo_src = ''./img/Equinox-favicon.png'',
      navbar_items =
        [NavDoc ''intro'' PosLeft ''Docs'',
         NavHref ''https://github.com/nordfjord/equinox-js'' ''GitHub'' PosRight]\<rparr>"

definition footer :: "nat \<Rightarrow> footer_config" where
  "footer year =
     \<lparr>footer_style = ''dark'',
      footer_links =
        [\<lparr>column_title = ''Docs'', column_items = [FooterTo ''Docs'' ''/docs/intro'']\<rparr>,
         \<lparr>column_title = ''Community'',
          column_items = [FooterHref ''Discord'' ''https://discord.gg/sEZGSHNNbH'',
                          FooterHref ''Twitter'' ''https://twitter.com/enordfjord'']\<rparr>,
         \<lparr>column_title = ''More'', column_items = [FooterHref ''GitHub'' ''https://github.com/nordfjord/equinox-js'']\<rparr>],
      copyright = copyright_line year\<rparr>"

definition config :: "nat \<Rightarrow> site_config" where
  "config year =
     \<lparr>site_title = ''EquinoxJS'', tagline = ''Lightweight event sourcing library'',
      favicon = ''img/Equinox-favicon.png'',
      url = ''https://nordfjord.github.io'', baseUrl = ''/equinox-js/'',
      organizationName = ''nordfjord'', projectName = ''equinox-js'',
      onBrokenLinks = SevThrow, onBrokenMarkdownLinks = SevWarn,
      i18n = \<lparr>defaultLocale = ''en'', locales = [''en'']\<rparr>,
      presets =
        [\<lparr>preset_name = ''classic'',
          preset_docs = \<lparr>sidebarPath = ''./sidebars.js'',
                         editUrl = ''https://github.com/nordfjord/equinox-js/tree/main/apps/docs''\<rparr>,
          customCss = ''./src/css/custom.css''\<rparr>],
      themeConfig =
        \<lparr>social_image = ''img/hero_banner.png'', tc_navbar = navbar, tc_footer = footer year,
         prism_theme = lightCodeTheme, prism_darkTheme = darkCodeTheme\<rparr>\<rparr>"

subsection \<open>The external links of the object\<close>

text \<open>
  The \<open>href\<close> fields of the navbar and footer items, and the docs' \<open>editUrl\<close>,
  in the order the object lists them.
\<close>

definition link_hrefs :: "site_config \<Rightarrow> string list" where
  "link_hrefs cfg =
     concat (map (\<lambda>i. case i of NavHref h lbl pos \<Rightarrow> [h] | NavDoc d pos lbl \<Rightarrow> [])
               (navbar_items (tc_navbar (themeConfig cfg)))) @
     concat (map (\<lambda>col. concat (map (\<lambda>i. case i of FooterHref lbl h \<Rightarrow> [h] | FooterTo lbl t \<Rightarrow> [])
                                     (column_items col)))
               (footer_links (tc_footer (themeConfig cfg)))) @
     map (editUrl \<circ> preset_docs) (presets cfg)"

definition starts_with :: "string \<Rightarrow> string \<Rightarrow> bool" where
  "starts_with p s \<longleftrightarrow> take (length p) s = p"

subsection \<open>Lemmas\<close>

text \<open>
  The configuration follows the GitHub Pages convention its comments
  describe: the site URL is the organisation's \<open>github.io\<close> origin, the base
  URL is the project name between slashes, and every GitHub link of the site
  (navbar, footer, the docs' edit URL) points into the repository
  \<open>organizationName/projectName\<close>.
\<close>

lemma github_pages_consistent:
  "url (config year) = ''https://'' @ organizationName (config year) @ ''.github.io'' \<and>
   baseUrl (config year) = ''/'' @ projectName (config year) @ ''/'' \<and>
   filter (starts_with ''https://github.com/'') (link_hrefs (config year)) =
   filter (starts_with (''https://github.com/'' @ organizationName (config year) @ ''/'' @ projectName (config year)))
     (link_hrefs (config year))"
  by (simp add: link_hrefs_def config_def navbar_def footer_def starts_with_def)

end
