(* ===== verification/AccessStrategy.thy ===== *)
theory AccessStrategy
  imports InvoiceAutoEmailer ContactPreferences
begin

text \<open>
  Access strategies: how a store back-end loads a stream's state without
  reading all of it.  The domains choose them: the invoice auto-emailer's
  \<open>resolveCategory\<close> (\<^verbatim>\<open>invoice-auto-emailer.ts\<close>, lines 80--87) loads with the
  message-db back-end's \<open>createLatestKnown\<close>, which reads only the last
  event, and with the memory store, which replays the stream;
  \<^verbatim>\<open>ContactPreferences.ts\<close> exports \<open>isOrigin\<close> and \<open>transmute\<close> (lines 40--41),
  the two functions of a custom access strategy: \<open>transmute\<close> turns the
  decided events into the events to append and the \<^emph>\<open>unfolds\<close> kept at the
  stream's tip, and a load reads backwards from the tip until an event
  satisfying \<open>isOrigin\<close> and folds from there.

  The back-ends are library code outside \<^verbatim>\<open>src/\<close> and the spec does not
  describe them; their loads are modelled here from the contract the domain
  code relies on, over the store of the \<open>Store\<close> theory (the latest-known load)
  and over an abstract stream of events and unfolds (the custom strategy).
\<close>

subsection \<open>Loads of a back-end\<close>

text \<open>\<open>Config.Store\<close>: the two back-ends of the example app.\<close>

datatype store_backend = MemoryStore | MessageDbStore

text \<open>A fresh load that replays the whole stream (the memory store).\<close>

definition load_full ::
  "('e, 's, 'c, 'f) category \<Rightarrow> 'f store \<Rightarrow> stream_name \<Rightarrow> error + version \<times> 's" where
  "load_full cat st sn =
     (case map_filter_err (try_decode (cat_codec cat)) (stream_messages st sn) of
        Inl err \<Rightarrow> Inl err
      | Inr es \<Rightarrow> Inr (stream_version st sn, cat_fold cat (cat_initial cat) es))"

text \<open>
  A fresh load that reads only the last event and folds its decoding from the
  initial state (\<open>LatestKnownEvent\<close>); an event of an unregistered type decodes
  to nothing, so the state is the initial one.
\<close>

definition load_latest_known ::
  "('e, 's, 'c, 'f) category \<Rightarrow> 'f store \<Rightarrow> stream_name \<Rightarrow> error + version \<times> 's" where
  "load_latest_known cat st sn =
     (let evs = stream_messages st sn
      in case map_filter_err (try_decode (cat_codec cat)) (if evs = [] then [] else [last evs]) of
           Inl err \<Rightarrow> Inl err
         | Inr es \<Rightarrow> Inr (stream_version st sn, cat_fold cat (cat_initial cat) es))"

text \<open>
  \<open>Service.resolveCategory(config)\<close>: the switch on \<open>config.store\<close>, each case
  given by the fresh load of the category it creates.
\<close>

definition resolveCategory ::
  "store_backend \<Rightarrow> (string \<Rightarrow> bool) \<Rightarrow> (string \<Rightarrow> bool) \<Rightarrow> string store \<Rightarrow> stream_name
   \<Rightarrow> error + version \<times> ae_state" where
  "resolveCategory backend is_email is_uuid st sn =
     (case backend of
        MemoryStore \<Rightarrow> load_full (ae_category is_email is_uuid) st sn
      | MessageDbStore \<Rightarrow> load_latest_known (ae_category is_email is_uuid) st sn)"

text \<open>
  The first attempt of \<open>sendEmail\<close> (lines 47--50) on a fresh load by the
  back-end that \<open>resolveCategory\<close> selects: the decision's effects and events.
\<close>

definition sendEmail_first_attempt ::
  "store_backend \<Rightarrow> (string \<Rightarrow> bool) \<Rightarrow> (string \<Rightarrow> bool) \<Rightarrow> (string \<Rightarrow> string option)
   \<Rightarrow> (string \<Rightarrow> string \<Rightarrow> string \<Rightarrow> mail_result) \<Rightarrow> string \<Rightarrow> int \<Rightarrow> string store \<Rightarrow> stream_name
   \<Rightarrow> error + ae_effect list \<times> ae_event list" where
  "sendEmail_first_attempt backend is_email is_uuid readProfile mailer payerId amount st sn =
     (case resolveCategory backend is_email is_uuid st sn of
        Inl err \<Rightarrow> Inl err
      | Inr (v, state) \<Rightarrow> Inr (ae_decide readProfile mailer payerId amount state))"

subsection \<open>The custom access strategy\<close>

text \<open>A stream of the custom strategy: its appended events and the unfolds at its tip.\<close>

record 'e custom_stream =
  cs_events :: "'e list"
  cs_unfolds :: "'e list"

text \<open>Reading backwards (the list is newest first) up to and including the first origin.\<close>

fun origin_scan :: "('e \<Rightarrow> bool) \<Rightarrow> 'e list \<Rightarrow> 'e list" where
  "origin_scan isOrig [] = []"
| "origin_scan isOrig (e # es) = (if isOrig e then [e] else e # origin_scan isOrig es)"

definition custom_load :: "('e \<Rightarrow> bool) \<Rightarrow> ('s \<Rightarrow> 'e list \<Rightarrow> 's) \<Rightarrow> 's \<Rightarrow> 'e custom_stream \<Rightarrow> 's" where
  "custom_load isOrig fld initial cs =
     fld initial (rev (origin_scan isOrig (rev (cs_events cs @ cs_unfolds cs))))"

text \<open>
  An append: nothing is written for no events; otherwise \<open>transmute\<close>, given
  the events and the state after them, says what to append and the new unfolds.
\<close>

definition custom_append ::
  "('e list \<Rightarrow> 's \<Rightarrow> 'e list \<times> 'e list) \<Rightarrow> ('s \<Rightarrow> 'e list \<Rightarrow> 's) \<Rightarrow> 's \<Rightarrow> 'e custom_stream \<Rightarrow> 'e list
   \<Rightarrow> 'e custom_stream" where
  "custom_append transm fld s cs events =
     (if events = [] then cs
      else case transm events (fld s events) of
             (w, u) \<Rightarrow> \<lparr>cs_events = cs_events cs @ w, cs_unfolds = u\<rparr>)"

text \<open>
  A sequence of transactions, each deciding on the loaded state: against the
  custom strategy, and against a plain log replayed in full.
\<close>

fun run_custom ::
  "('e \<Rightarrow> bool) \<Rightarrow> ('e list \<Rightarrow> 's \<Rightarrow> 'e list \<times> 'e list) \<Rightarrow> ('s \<Rightarrow> 'e list \<Rightarrow> 's) \<Rightarrow> 's
   \<Rightarrow> ('s \<Rightarrow> 'e list) list \<Rightarrow> 'e custom_stream \<Rightarrow> 'e custom_stream" where
  "run_custom isOrig transm fld initial [] cs = cs"
| "run_custom isOrig transm fld initial (dec # decs) cs =
     (let s = custom_load isOrig fld initial cs
      in run_custom isOrig transm fld initial decs (custom_append transm fld s cs (dec s)))"

fun run_log :: "('s \<Rightarrow> 'e list \<Rightarrow> 's) \<Rightarrow> 's \<Rightarrow> ('s \<Rightarrow> 'e list) list \<Rightarrow> 'e list \<Rightarrow> 'e list" where
  "run_log fld initial [] log = log"
| "run_log fld initial (dec # decs) log = run_log fld initial decs (log @ dec (fld initial log))"

text \<open>
  A stream of the \<open>InvoiceAutoEmail\<close> category whose last event has a type the
  codec does not register (written, say, by a newer version of the app): an
  \<open>EmailSent\<close> followed by an \<open>EmailBounced\<close>.
\<close>

definition sent_example :: ae_event where
  "sent_example = EmailSent \<lparr>sent_email = ''ann@example.com'', sent_payer_id = ''p1''\<rparr>"

definition bounce_store :: "string store" where
  "bounce_store =
     \<lparr>st_log = [(StreamName CATEGORY ''inv1'', to_timeline (encode (ae_codec (\<lambda>_. True) (\<lambda>_. True)) sent_example ()) 0 1),
               (StreamName CATEGORY ''inv1'',
                \<lparr>ev_id = None, ev_type = ''EmailBounced'', ev_data = None, ev_meta = None, ev_index = 1, ev_global = 2\<rparr>)],
      st_sql_condition = False\<rparr>"

subsection \<open>Lemmas\<close>

lemma map_filter_err_all_Some:
  "(\<And>x. x \<in> set xs \<Longrightarrow> f x = Inr (Some (h x))) \<Longrightarrow> map_filter_err f xs = Inr (map h xs)"
  by (induction xs) simp_all

text \<open>For a fold that keeps only the last event, reading the last event is enough when every event decodes.\<close>

lemma load_latest_known_full:
  assumes fld: "\<And>s es. cat_fold cat s es = (if es = [] then s else g s (last es))"
    and dec: "\<forall>ev \<in> set (stream_messages st sn). \<exists>e. try_decode (cat_codec cat) ev = Inr (Some e)"
  shows "load_latest_known cat st sn = load_full cat st sn"
proof -
  let ?evs = "stream_messages st sn"
  obtain h where h: "\<forall>ev \<in> set ?evs. try_decode (cat_codec cat) ev = Inr (Some (h ev))"
    using dec by metis
  have all: "map_filter_err (try_decode (cat_codec cat)) ?evs = Inr (map h ?evs)"
    using h by (intro map_filter_err_all_Some) simp
  show ?thesis
  proof (cases "?evs = []")
    case True
    then show ?thesis by (simp add: load_latest_known_def load_full_def)
  next
    case False
    have "map_filter_err (try_decode (cat_codec cat)) [last ?evs] = Inr (map h [last ?evs])"
      by (rule map_filter_err_all_Some) (use h False in auto)
    then show ?thesis using all False by (simp add: load_latest_known_def load_full_def fld last_map)
  qed
qed

lemma origin_scan_all: "(\<And>e. isOrig e) \<Longrightarrow> origin_scan isOrig xs = take 1 xs"
  by (cases xs) simp_all

lemma rev_take_1_rev: "rev (take (Suc 0) (rev xs)) = (if xs = [] then [] else [last xs])"
  by (cases xs rule: rev_cases) simp_all

lemma cp_fold_last: "xs \<noteq> [] \<Longrightarrow> cp_fold s [last xs] = cp_fold s' xs"
  by (simp add: cp_fold_def cp_evolve_const[of s _ s'])

text \<open>Every event is an origin, so a load reads the newest event only, which is the whole state.\<close>

lemma cp_custom_load:
  "custom_load isOrigin cp_fold cp_initial cs = cp_fold cp_initial (cs_events cs @ cs_unfolds cs)"
proof (cases "cs_events cs @ cs_unfolds cs = []")
  case False
  then show ?thesis
    using cp_fold_last[OF False, of cp_initial cp_initial]
    by (simp add: custom_load_def origin_scan_all isOrigin_def rev_take_1_rev del: rev_append)
qed (simp add: custom_load_def)

lemma cp_custom_append:
  "custom_append transmute cp_fold s cs evs =
     (if evs = [] then cs else \<lparr>cs_events = cs_events cs, cs_unfolds = evs\<rparr>)"
  by (simp add: custom_append_def transmute_def)

lemma cp_run_custom:
  assumes "cs_events cs = []" and "cp_fold cp_initial (cs_unfolds cs) = cp_fold cp_initial log"
  shows "cs_events (run_custom isOrigin transmute cp_fold cp_initial decs cs) = [] \<and>
         cp_fold cp_initial (cs_unfolds (run_custom isOrigin transmute cp_fold cp_initial decs cs)) =
           cp_fold cp_initial (run_log cp_fold cp_initial decs log)"
  using assms
proof (induction decs arbitrary: cs log)
  case Nil
  then show ?case by simp
next
  case (Cons dec decs)
  let ?s = "cp_fold cp_initial log"
  have load: "custom_load isOrigin cp_fold cp_initial cs = ?s"
    using Cons.prems by (simp add: cp_custom_load)
  let ?cs' = "custom_append transmute cp_fold ?s cs (dec ?s)"
  have "cs_events ?cs' = [] \<and> cp_fold cp_initial (cs_unfolds ?cs') = cp_fold cp_initial (log @ dec ?s)"
  proof (cases "dec ?s = []")
    case False
    then show ?thesis
      using Cons.prems(1) cp_fold_last[OF False, of cp_initial cp_initial] cp_fold_last[of "log @ dec ?s" cp_initial cp_initial]
      by (simp add: cp_custom_append)
  qed (use Cons.prems in \<open>simp add: cp_custom_append\<close>)
  from Cons.IH[OF conjunct1[OF this] conjunct2[OF this]] show ?case using load by (simp add: Let_def)
qed

lemma bounce_store_decodes:
  "map_filter_err (try_decode (ae_codec (\<lambda>_. True) (\<lambda>_. True))) (stream_messages bounce_store (StreamName CATEGORY ''inv1'')) =
     Inr [sent_example]"
proof -
  have "try_decode (ae_codec (\<lambda>_. True) (\<lambda>_. True)) (to_timeline (encode (ae_codec (\<lambda>_. True) (\<lambda>_. True)) sent_example ()) 0 1) =
          Inr (Some sent_example)"
    using ae_codec_roundtrip[of "\<lambda>_. True" "\<lambda>_. True" sent_example "()"]
    by (simp add: codec_roundtrip_def ae_valid_def sent_example_def)
  moreover have "try_decode (ae_codec (\<lambda>_. True) (\<lambda>_. True))
      \<lparr>ev_id = None, ev_type = ''EmailBounced'', ev_data = None, ev_meta = None, ev_index = 1, ev_global = 2\<rparr> = Inr None"
    by (simp add: ae_codec_def upcast_codec_def json_codec_def upcast_body_def ae_mapping_def)
  ultimately show ?thesis by (simp add: bounce_store_def stream_messages_def)
qed

subsection \<open>Theorems\<close>

text \<open>
  C31.  On a stream every event of which the emailer's codec decodes, the two
  back-ends of \<open>resolveCategory\<close> load the same version and state: reading
  only the latest event is a refinement of replaying the stream, because the
  fold keeps only the last event.
\<close>

theorem latest_known_matches_memory:
  assumes dec: "\<forall>ev \<in> set (stream_messages st sn). \<exists>e. try_decode (ae_codec is_email is_uuid) ev = Inr (Some e)"
  shows "resolveCategory MessageDbStore is_email is_uuid st sn = resolveCategory MemoryStore is_email is_uuid st sn"
proof -
  have "load_latest_known (ae_category is_email is_uuid) st sn = load_full (ae_category is_email is_uuid) st sn"
    by (rule load_latest_known_full[where g = "\<lambda>s e. Some e"]) (use dec in \<open>simp_all add: ae_category_def ae_fold_def\<close>)
  then show ?thesis by (simp add: resolveCategory_def)
qed

theorem latest_known_matches_memory_witness:
  "resolveCategory MessageDbStore (\<lambda>_. True) (\<lambda>_. True)
     \<lparr>st_log = [(StreamName CATEGORY ''inv1'', to_timeline (encode (ae_codec (\<lambda>_. True) (\<lambda>_. True)) sent_example ()) 0 1)],
      st_sql_condition = False\<rparr> (StreamName CATEGORY ''inv1'') =
   resolveCategory MemoryStore (\<lambda>_. True) (\<lambda>_. True)
     \<lparr>st_log = [(StreamName CATEGORY ''inv1'', to_timeline (encode (ae_codec (\<lambda>_. True) (\<lambda>_. True)) sent_example ()) 0 1)],
      st_sql_condition = False\<rparr> (StreamName CATEGORY ''inv1'')"
proof (rule latest_known_matches_memory)
  have "try_decode (ae_codec (\<lambda>_. True) (\<lambda>_. True)) (to_timeline (encode (ae_codec (\<lambda>_. True) (\<lambda>_. True)) sent_example ()) 0 1) =
          Inr (Some sent_example)"
    using ae_codec_roundtrip[of "\<lambda>_. True" "\<lambda>_. True" sent_example "()"]
    by (simp add: codec_roundtrip_def ae_valid_def sent_example_def)
  then show "\<forall>ev \<in> set (stream_messages
      \<lparr>st_log = [(StreamName CATEGORY ''inv1'', to_timeline (encode (ae_codec (\<lambda>_. True) (\<lambda>_. True)) sent_example ()) 0 1)],
       st_sql_condition = False\<rparr> (StreamName CATEGORY ''inv1'')).
      \<exists>e. try_decode (ae_codec (\<lambda>_. True) (\<lambda>_. True)) ev = Inr (Some e)"
    by (simp add: stream_messages_def)
qed

text \<open>
  C32.  When the last event of a stream has a type the codec does not
  register, the back-ends disagree.  Take any stream whose events decode and
  whose last decoded event is an \<open>EmailSent\<close>.  The memory store replays the
  stream, sees the \<open>EmailSent\<close>, and the first attempt of \<open>sendEmail\<close> decides
  nothing.  The message-db back-end reads only the unknown last event and
  loads the initial state, so the same attempt reads the payer and mails
  again.
\<close>

theorem latest_known_unknown_last_event:
  assumes dec: "map_filter_err (try_decode (ae_codec ie iu)) (stream_messages st sn) = Inr es"
    and sent: "es \<noteq> []" "last es = EmailSent r"
    and unk: "stream_messages st sn \<noteq> []" "try_decode (ae_codec ie iu) (last (stream_messages st sn)) = Inr None"
    and found: "rp pid = Some em"
  shows "sendEmail_first_attempt MemoryStore ie iu rp ml pid amt st sn = Inr ([], []) \<and>
         map_sum id fst (sendEmail_first_attempt MessageDbStore ie iu rp ml pid amt st sn) =
           Inr [ReadProfile pid, SendMail em (mail_subject amt) (mail_body amt)]"
proof
  show "sendEmail_first_attempt MemoryStore ie iu rp ml pid amt st sn = Inr ([], [])"
    using dec sent
    by (simp add: sendEmail_first_attempt_def resolveCategory_def load_full_def ae_category_def ae_fold_def
        ae_decide_def is_EmailSent_def)
  have "load_latest_known (ae_category ie iu) st sn = Inr (stream_version st sn, None)"
    using unk by (simp add: load_latest_known_def ae_category_def ae_fold_def ae_initial_def Let_def)
  then show "map_sum id fst (sendEmail_first_attempt MessageDbStore ie iu rp ml pid amt st sn) =
           Inr [ReadProfile pid, SendMail em (mail_subject amt) (mail_body amt)]"
    using found by (simp add: sendEmail_first_attempt_def resolveCategory_def ae_decide_def is_EmailSent_def)
qed

theorem latest_known_unknown_last_event_witness:
  "sendEmail_first_attempt MemoryStore (\<lambda>_. True) (\<lambda>_. True) (\<lambda>_. Some ''ann@example.com'') (\<lambda>_ _ _. MailSent) ''p1'' 100
     bounce_store (StreamName CATEGORY ''inv1'') = Inr ([], []) \<and>
   map_sum id fst (sendEmail_first_attempt MessageDbStore (\<lambda>_. True) (\<lambda>_. True) (\<lambda>_. Some ''ann@example.com'') (\<lambda>_ _ _. MailSent)
     ''p1'' 100 bounce_store (StreamName CATEGORY ''inv1'')) =
     Inr [ReadProfile ''p1'', SendMail ''ann@example.com'' (mail_subject 100) (mail_body 100)]"
proof (rule latest_known_unknown_last_event[OF bounce_store_decodes])
  show "try_decode (ae_codec (\<lambda>_. True) (\<lambda>_. True)) (last (stream_messages bounce_store (StreamName CATEGORY ''inv1''))) = Inr None"
    by (simp add: bounce_store_def stream_messages_def ae_codec_def upcast_codec_def json_codec_def
          upcast_body_def ae_mapping_def)
qed (simp_all add: sent_example_def bounce_store_def stream_messages_def)

text \<open>
  C33.  The custom access strategy of \<^verbatim>\<open>ContactPreferences.ts\<close> refines the
  replay of the whole stream: for any sequence of decisions, each made on
  the state the strategy loads, \<open>transmute\<close> appends no event to the stream,
  and the state loaded from the unfolds by reading back to an \<open>isOrigin\<close>
  event is the state the same decisions reach when every event is appended
  and replayed.
\<close>

theorem custom_strategy_refines_replay:
  "cs_events (run_custom isOrigin transmute cp_fold cp_initial decs \<lparr>cs_events = [], cs_unfolds = []\<rparr>) = [] \<and>
   custom_load isOrigin cp_fold cp_initial (run_custom isOrigin transmute cp_fold cp_initial decs \<lparr>cs_events = [], cs_unfolds = []\<rparr>) =
     cp_fold cp_initial (run_log cp_fold cp_initial decs [])"
  using cp_run_custom[of "\<lparr>cs_events = [], cs_unfolds = []\<rparr>" "[]" decs] by (simp add: cp_custom_load)

end
