(* ===== verification/CodecTests.thy ===== *)
theory CodecTests
  imports Codec
begin

text \<open>
  The codec tests of the core package, \<^verbatim>\<open>packages/core/test/Codec.test.ts\<close>:
  the JavaScript values the tests put in payloads (JSON values and dates), the
  zod schemas and the hand-written parser they validate with, the four codecs
  they build, and each test as a boolean definition that holds when the test
  passes.  The library functions the tests rely on, \<open>Date.prototype.toISOString\<close>,
  \<open>new Date(string)\<close> and zod's \<open>.datetime()\<close> check, are parameters bound by
  \<open>date_contract\<close>.
\<close>

subsection \<open>JavaScript values with dates\<close>

text \<open>
  The values a payload holds at run time: what \<open>JSON.parse\<close> builds, and
  \<open>Date\<close> objects.  A date is its time value, \<open>None\<close> for an invalid date
  (time value \<open>NaN\<close>).
\<close>

datatype jsval = JsNull | JsBool bool | JsNum int | JsStr string | JsArr "jsval list"
  | JsObj "(string \<times> jsval) list" | JsDate "int option"

text \<open>The value \<open>JSON.parse\<close> builds for a parsed JSON value.\<close>

fun of_json :: "json \<Rightarrow> jsval" where
  "of_json JNull = JsNull"
| "of_json (JBool b) = JsBool b"
| "of_json (JNum n) = JsNum n"
| "of_json (JStr s) = JsStr s"
| "of_json (JArr vs) = JsArr (map of_json vs)"
| "of_json (JObj kvs) = JsObj (map (\<lambda>(k, v). (k, of_json v)) kvs)"

text \<open>
  The JSON value \<open>JSON.stringify\<close> serialises for a run-time value: a date
  goes through \<open>Date.prototype.toJSON\<close>, its ISO string (\<open>toISO\<close>), or
  \<open>null\<close> when it is invalid.
\<close>

fun to_json :: "(int \<Rightarrow> string) \<Rightarrow> jsval \<Rightarrow> json" where
  "to_json toISO JsNull = JNull"
| "to_json toISO (JsBool b) = JBool b"
| "to_json toISO (JsNum n) = JNum n"
| "to_json toISO (JsStr s) = JStr s"
| "to_json toISO (JsArr vs) = JArr (map (to_json toISO) vs)"
| "to_json toISO (JsObj kvs) = JObj (map (\<lambda>(k, v). (k, to_json toISO v)) kvs)"
| "to_json toISO (JsDate (Some t)) = JStr (toISO t)"
| "to_json toISO (JsDate None) = JNull"

text \<open>
  A typed event of the tests as the object the JSON codec serialises: its data
  and metadata as \<open>JSON.stringify\<close> sees them.
\<close>

definition js_shape :: "(int \<Rightarrow> string) \<Rightarrow> jsval stream_event \<Rightarrow> json stream_event" where
  "js_shape toISO ev =
     \<lparr>ev_id = ev_id ev, ev_type = ev_type ev, ev_data = map_option (to_json toISO) (ev_data ev),
      ev_meta = map_option (to_json toISO) (ev_meta ev)\<rparr>"

text \<open>
  The date functions of the runtime: \<open>toISOString\<close> (\<open>toISO\<close>), the \<open>Date\<close>
  constructor on a string (\<open>date_of\<close>, \<open>None\<close> for an invalid date) and zod's
  \<open>.datetime()\<close> check (\<open>is_dt\<close>).  The tests rely on an ISO string being a
  valid datetime that parses back to its date, and on \<open>"hello"\<close> being neither.
\<close>

definition date_contract :: "(int \<Rightarrow> string) \<Rightarrow> (string \<Rightarrow> int option) \<Rightarrow> (string \<Rightarrow> bool) \<Rightarrow> bool" where
  "date_contract toISO date_of is_dt \<longleftrightarrow>
     (\<forall>t. is_dt (toISO t) \<and> date_of (toISO t) = Some t) \<and> \<not> is_dt ''hello'' \<and> date_of ''hello'' = None"

subsection \<open>Validators\<close>

text \<open>
  A validator takes the raw value (\<open>None\<close> for \<open>undefined\<close>) and returns the
  parsed one, or \<open>None\<close> when it throws.  \<open>z.object(shape)\<close> accepts an
  object whose fields pass their schemas and returns the parsed fields, in the
  order of the shape (unknown keys are stripped).
\<close>

definition zod_object :: "(string \<times> (jsval option \<Rightarrow> jsval option)) list \<Rightarrow> jsval option \<Rightarrow> jsval option" where
  "zod_object sh v =
     (case v of
        Some (JsObj kvs) \<Rightarrow> map_option JsObj (those (map (\<lambda>(k, p). map_option (Pair k) (p (map_of kvs k))) sh))
      | _ \<Rightarrow> None)"

text \<open>\<open>z.date()\<close>: a valid \<open>Date\<close> object and nothing else.\<close>

fun zod_date :: "jsval option \<Rightarrow> jsval option" where
  "zod_date (Some (JsDate (Some t))) = Some (JsDate (Some t))"
| "zod_date _ = None"

text \<open>
  \<open>z.string().datetime().transform((x) => new Date(x))\<close>, lines 42--45: a
  string that passes the datetime check, turned into a date.
\<close>

definition zod_string_datetime_date ::
  "(string \<Rightarrow> bool) \<Rightarrow> (string \<Rightarrow> int option) \<Rightarrow> jsval option \<Rightarrow> jsval option" where
  "zod_string_datetime_date is_dt date_of v =
     (case v of Some (JsStr s) \<Rightarrow> if is_dt s then Some (JsDate (date_of s)) else None | _ \<Rightarrow> None)"

text \<open>\<open>HelloSchema\<close> of the zod tests, lines 41--46, and of the complex-type test, line 63.\<close>

definition HelloSchema_zod :: "(string \<Rightarrow> bool) \<Rightarrow> (string \<Rightarrow> int option) \<Rightarrow> jsval option \<Rightarrow> jsval option" where
  "HelloSchema_zod is_dt date_of = zod_object [(''hello'', zod_string_datetime_date is_dt date_of)]"

definition HelloSchema_date :: "jsval option \<Rightarrow> jsval option" where
  "HelloSchema_date = zod_object [(''hello'', zod_date)]"

text \<open>The hand-written \<open>date\<close> parser, lines 73--81.\<close>

fun js_date :: "(string \<Rightarrow> int option) \<Rightarrow> jsval option \<Rightarrow> jsval option" where
  "js_date date_of (Some (JsDate d)) = Some (JsDate d)"
| "js_date date_of (Some (JsStr s)) = (case date_of s of None \<Rightarrow> None | Some t \<Rightarrow> Some (JsDate (Some t)))"
| "js_date date_of _ = None"

text \<open>
  Property access \<open>e[k]\<close>: \<open>None\<close> when it throws (on \<open>undefined\<close> and
  \<open>null\<close>), \<open>Some None\<close> for a missing property.  Primitive values and arrays
  have no own data properties the tests read.
\<close>

definition js_get :: "jsval option \<Rightarrow> string \<Rightarrow> jsval option option" where
  "js_get e k =
     (case e of None \<Rightarrow> None | Some JsNull \<Rightarrow> None | Some (JsObj kvs) \<Rightarrow> Some (map_of kvs k) | Some _ \<Rightarrow> Some None)"

text \<open>
  The hand-written \<open>schema\<close> combinator, lines 83--91:
  \<open>Object.fromEntries\<close> of each key with its decoder applied to \<open>e[k]\<close>; the
  first decoder or property access that throws makes the whole call throw.
\<close>

definition schema :: "(string \<times> (jsval option \<Rightarrow> jsval option)) list \<Rightarrow> jsval option \<Rightarrow> jsval option" where
  "schema mapping e =
     map_option JsObj
       (those (map (\<lambda>(k, dec). case js_get e k of None \<Rightarrow> None | Some v \<Rightarrow> map_option (Pair k) (dec v)) mapping))"

text \<open>\<open>HelloSchema\<close> of the custom-parser tests, line 93.\<close>

definition HelloSchema_custom :: "(string \<Rightarrow> int option) \<Rightarrow> jsval option \<Rightarrow> jsval option" where
  "HelloSchema_custom date_of = schema [(''at'', js_date date_of)]"

subsection \<open>The codecs of the tests\<close>

text \<open>\<open>Codec.json<any>()\<close>, line 9: no context, so no metadata from it.\<close>

definition json_any :: "(json stream_event, unit, string) codec" where
  "json_any = json_codec (\<lambda>_. None)"

text \<open>
  \<open>Codec.Upcast.body(mapping)\<close> for validators of the data: the decoded event
  is \<open>{type, data: parse(raw.data)}\<close>, the raw data being the value
  \<open>JSON.parse\<close> built.
\<close>

definition body_mapping ::
  "(string \<times> (jsval option \<Rightarrow> jsval option)) list \<Rightarrow> (string \<times> (json option \<Rightarrow> jsval stream_event option)) list" where
  "body_mapping m =
     map (\<lambda>(t, p). (t, \<lambda>d. map_option (\<lambda>v. \<lparr>ev_id = None, ev_type = t, ev_data = Some v, ev_meta = None\<rparr>)
                                   (p (map_option of_json d)))) m"

text \<open>\<open>Codec.upcast(Codec.json(), Codec.Upcast.body({ Hello: parse }))\<close>, lines 47, 64 and 95.\<close>

definition hello_codec ::
  "(int \<Rightarrow> string) \<Rightarrow> (jsval option \<Rightarrow> jsval option) \<Rightarrow> (jsval stream_event, unit, string) codec" where
  "hello_codec toISO parse = upcast_codec json_any (upcast_body (body_mapping [(''Hello'', parse)])) (js_shape toISO)"

text \<open>The event \<open>{ type: "Hello", data }\<close> of the upcast tests.\<close>

definition hello_event :: "jsval \<Rightarrow> jsval stream_event" where
  "hello_event d = \<lparr>ev_id = None, ev_type = ''Hello'', ev_data = Some d, ev_meta = None\<rparr>"

text \<open>
  A thrown exception: \<open>expect(...).toThrow()\<close>.  The tests pass the encoded
  event itself to \<open>tryDecode\<close>; it has no positions, read here as 0.
\<close>

definition throws :: "error + 'a \<Rightarrow> bool" where
  "throws r = (case r of Inl _ \<Rightarrow> True | Inr _ \<Rightarrow> False)"

subsection \<open>The tests\<close>

text \<open>\<open>json\<close> / \<open>roundtrips\<close>, lines 8--25.\<close>

definition test_json_roundtrips :: bool where
  "test_json_roundtrips =
     (let event = \<lparr>ev_id = None, ev_type = ''Hello'', ev_data = Some (JObj [(''world'', JStr ''hello'')]), ev_meta = None\<rparr>
      in encode json_any event () =
           \<lparr>ev_id = None, ev_type = ''Hello'', ev_data = Some ''{\"world\":\"hello\"}'', ev_meta = None\<rparr> \<and>
         try_decode json_any
           \<lparr>ev_id = Some ''123'', ev_type = ''Hello'', ev_data = Some ''{\"world\":\"hello\"}'', ev_meta = None,
            ev_index = 0, ev_global = 0\<rparr> = Inr (Some event))"

text \<open>\<open>json\<close> / \<open>Keeps metadata and id if they exist\<close>, lines 27--36.\<close>

definition test_json_keeps_meta :: bool where
  "test_json_keeps_meta =
     (let event = \<lparr>ev_id = Some ''123'', ev_type = ''Hello'', ev_data = Some (JObj [(''world'', JStr ''hello'')]),
                   ev_meta = Some (JObj [(''hello'', JStr ''hi'')])\<rparr>
      in encode json_any event () =
           \<lparr>ev_id = Some ''123'', ev_type = ''Hello'', ev_data = Some ''{\"world\":\"hello\"}'',
            ev_meta = Some ''{\"hello\":\"hi\"}''\<rparr>)"

text \<open>\<open>upcast\<close> / \<open>with zod\<close> / \<open>roundtrips\<close>, lines 49--54; \<open>new Date()\<close> is the time value \<open>t\<close>.\<close>

definition test_zod_roundtrips :: "(int \<Rightarrow> string) \<Rightarrow> (string \<Rightarrow> int option) \<Rightarrow> (string \<Rightarrow> bool) \<Rightarrow> int \<Rightarrow> bool" where
  "test_zod_roundtrips toISO date_of is_dt t =
     (let codec = hello_codec toISO (HelloSchema_zod is_dt date_of);
          event = hello_event (JsObj [(''hello'', JsDate (Some t))]);
          encoded = encode codec event ()
      in try_decode codec (to_timeline encoded 0 0) = Inr (Some event))"

text \<open>\<open>upcast\<close> / \<open>with zod\<close> / \<open>fails if upcast fails\<close>, lines 56--60.\<close>

definition test_zod_fails :: "(int \<Rightarrow> string) \<Rightarrow> (string \<Rightarrow> int option) \<Rightarrow> (string \<Rightarrow> bool) \<Rightarrow> bool" where
  "test_zod_fails toISO date_of is_dt =
     (let codec = hello_codec toISO (HelloSchema_zod is_dt date_of);
          encoded = encode codec (hello_event (JsObj [(''hello'', JsStr ''hello'')])) ()
      in throws (try_decode codec (to_timeline encoded 0 0)))"

text \<open>\<open>upcast\<close> / \<open>with zod\<close> / \<open>does not roundtrip complex types\<close>, lines 62--69.\<close>

definition test_zod_date_fails :: "(int \<Rightarrow> string) \<Rightarrow> int \<Rightarrow> bool" where
  "test_zod_date_fails toISO t =
     (let codec = hello_codec toISO HelloSchema_date;
          encoded = encode codec (hello_event (JsObj [(''hello'', JsDate (Some t))])) ()
      in throws (try_decode codec (to_timeline encoded 0 0)))"

text \<open>\<open>upcast\<close> / \<open>with custom parser\<close> / \<open>roundtrips\<close>, lines 96--101.\<close>

definition test_custom_roundtrips :: "(int \<Rightarrow> string) \<Rightarrow> (string \<Rightarrow> int option) \<Rightarrow> int \<Rightarrow> bool" where
  "test_custom_roundtrips toISO date_of t =
     (let codec = hello_codec toISO (HelloSchema_custom date_of);
          event = hello_event (JsObj [(''at'', JsDate (Some t))]);
          encoded = encode codec event ()
      in try_decode codec (to_timeline encoded 0 0) = Inr (Some event))"

text \<open>\<open>upcast\<close> / \<open>with custom parser\<close> / \<open>fails if upcast fails\<close>, lines 103--107.\<close>

definition test_custom_fails :: "(int \<Rightarrow> string) \<Rightarrow> (string \<Rightarrow> int option) \<Rightarrow> bool" where
  "test_custom_fails toISO date_of =
     (let codec = hello_codec toISO (HelloSchema_custom date_of);
          encoded = encode codec (hello_event (JsObj [(''at'', JsStr ''hello'')])) ()
      in throws (try_decode codec (to_timeline encoded 0 0)))"

text \<open>
  A date library that meets \<open>date_contract\<close>: time values printed and read
  as decimal integers.
\<close>

definition decimal_date :: "string \<Rightarrow> int option" where
  "decimal_date s = (case parse_int s of Some (t, []) \<Rightarrow> Some t | _ \<Rightarrow> None)"

subsection \<open>Lemmas\<close>

text \<open>
  The upcast codecs of the tests encode through the JSON codec; decoding what
  they encoded runs the validator on the value \<open>JSON.parse\<close> rebuilds.
\<close>

lemma hello_codec_encode:
  "encode (hello_codec toISO parse) ev () = encode json_any (js_shape toISO ev) ()"
  by (simp add: hello_codec_def upcast_codec_def)

lemma hello_codec_decode:
  assumes "json_wf (to_json toISO v)" "js_truthy (to_json toISO v)"
  shows "try_decode (hello_codec toISO parse) (to_timeline (encode (hello_codec toISO parse) (hello_event v) ()) i g) =
           (case parse (Some (of_json (to_json toISO v))) of
              None \<Rightarrow> Inl (UpcastValidationError ''Hello'')
            | Some w \<Rightarrow> Inr (Some (hello_event w)))"
proof -
  have "try_decode json_any (to_timeline (encode json_any (js_shape toISO (hello_event v)) ()) i g) =
          Inr (Some \<lparr>ev_id = None, ev_type = ''Hello'', ev_data = Some (to_json toISO v), ev_meta = None\<rparr>)"
    unfolding json_any_def using json_codec_roundtrip[of "js_shape toISO (hello_event v)"] assms
    by (simp add: js_shape_def hello_event_def)
  then show ?thesis
    by (simp add: hello_codec_encode, simp add: hello_codec_def upcast_codec_def upcast_body_def body_mapping_def
                  hello_event_def split: option.splits)
qed

lemma zod_date_of_json [simp]: "zod_date (map_option of_json d) = None"
proof (cases d)
  case (Some v) then show ?thesis by (cases v) simp_all
qed simp

lemma HelloSchema_date_of_json [simp]: "HelloSchema_date (map_option of_json d) = None"
proof (cases d)
  case (Some v)
  then show ?thesis
    by (cases v) (simp_all add: HelloSchema_date_def zod_object_def split_def map_of_map_snd)
qed (simp add: HelloSchema_date_def zod_object_def)

lemma decimal_date_contract: "date_contract show_int decimal_date (\<lambda>s. decimal_date s \<noteq> None)"
proof -
  have "\<And>t. parse_int (show_int t) = Some (t, [])"
    using parse_int_show_int[of "[]"] by (simp add: num_end_def)
  then show ?thesis
    by (simp add: date_contract_def decimal_date_def parse_int_def is_digit_def)
qed

lemma JSON_parse_text: "stringify v = s \<Longrightarrow> json_wf v \<Longrightarrow> JSON_parse s = Inr v"
  using JSON_parse_stringify by blast

lemma world_text: "stringify (JObj [(''world'', JStr ''hello'')]) = ''{\"world\":\"hello\"}''"
  by (simp add: quote_def escape_char_def)

lemma test_json_roundtrips_holds: "test_json_roundtrips"
  using JSON_parse_text[OF world_text]
  by (simp add: test_json_roundtrips_def json_any_def json_codec_def quote_def escape_char_def)

lemma test_json_keeps_meta_holds: "test_json_keeps_meta"
  by (simp add: test_json_keeps_meta_def json_any_def json_codec_def quote_def escape_char_def)

lemma test_zod_roundtrips_holds:
  "date_contract toISO date_of is_dt \<Longrightarrow> test_zod_roundtrips toISO date_of is_dt t"
  using hello_codec_decode[of toISO "JsObj [(''hello'', JsDate (Some t))]"]
  by (simp add: test_zod_roundtrips_def date_contract_def HelloSchema_zod_def zod_object_def zod_string_datetime_date_def)

lemma test_zod_fails_holds:
  "date_contract toISO date_of is_dt \<Longrightarrow> test_zod_fails toISO date_of is_dt"
  using hello_codec_decode[of toISO "JsObj [(''hello'', JsStr ''hello'')]"]
  by (simp add: test_zod_fails_def date_contract_def HelloSchema_zod_def zod_object_def zod_string_datetime_date_def throws_def)

lemma test_zod_date_fails_holds: "test_zod_date_fails toISO t"
  using hello_codec_decode[where parse = HelloSchema_date and v = "JsObj [(''hello'', JsDate (Some t))]"]
  by (simp add: test_zod_date_fails_def throws_def HelloSchema_date_def zod_object_def)

lemma test_custom_roundtrips_holds:
  "date_contract toISO date_of is_dt \<Longrightarrow> test_custom_roundtrips toISO date_of t"
  using hello_codec_decode[of toISO "JsObj [(''at'', JsDate (Some t))]"]
  by (simp add: test_custom_roundtrips_def date_contract_def HelloSchema_custom_def schema_def js_get_def)

lemma test_custom_fails_holds:
  "date_contract toISO date_of is_dt \<Longrightarrow> test_custom_fails toISO date_of"
  using hello_codec_decode[of toISO "JsObj [(''at'', JsStr ''hello'')]"]
  by (simp add: test_custom_fails_def date_contract_def HelloSchema_custom_def schema_def js_get_def throws_def)

lemma zod_roundtrip:
  assumes "date_contract toISO date_of is_dt"
  shows "codec_roundtrip (hello_codec toISO (HelloSchema_zod is_dt date_of)) (hello_event (JsObj [(''hello'', JsDate (Some t))])) ()"
  using assms hello_codec_decode[of toISO "JsObj [(''hello'', JsDate (Some t))]"]
  by (simp add: codec_roundtrip_def date_contract_def HelloSchema_zod_def zod_object_def zod_string_datetime_date_def)

subsection \<open>The test file\<close>

text \<open>
  C35.  Every test of \<^verbatim>\<open>Codec.test.ts\<close> passes, for every date \<open>new Date()\<close>
  returns, with any date library that meets the contract the tests rely on:
  the two JSON codec tests, the three zod tests and the two custom-parser tests.
\<close>

theorem codec_tests_pass:
  assumes "date_contract toISO date_of is_dt"
  shows "test_json_roundtrips \<and> test_json_keeps_meta \<and>
         test_zod_roundtrips toISO date_of is_dt t \<and> test_zod_fails toISO date_of is_dt \<and>
         test_zod_date_fails toISO t \<and>
         test_custom_roundtrips toISO date_of t \<and> test_custom_fails toISO date_of"
  using test_json_roundtrips_holds test_json_keeps_meta_holds test_zod_roundtrips_holds[OF assms]
    test_zod_fails_holds[OF assms] test_zod_date_fails_holds test_custom_roundtrips_holds[OF assms]
    test_custom_fails_holds[OF assms]
  by blast

theorem codec_tests_pass_witness:
  "date_contract show_int decimal_date (\<lambda>s. decimal_date s \<noteq> None) \<and>
   test_json_roundtrips \<and> test_json_keeps_meta \<and>
   test_zod_roundtrips show_int decimal_date (\<lambda>s. decimal_date s \<noteq> None) 1700000000000 \<and>
   test_zod_fails show_int decimal_date (\<lambda>s. decimal_date s \<noteq> None) \<and>
   test_zod_date_fails show_int 1700000000000 \<and>
   test_custom_roundtrips show_int decimal_date 1700000000000 \<and> test_custom_fails show_int decimal_date"
  using codec_tests_pass[OF decimal_date_contract, of 1700000000000] decimal_date_contract by simp

text \<open>
  C36.  The upcast codec whose schema asks for a \<open>Date\<close> (\<open>z.date()\<close>, the
  test at lines 62--69) decodes no event at all: a payload that went through
  JSON holds no \<open>Date\<close>, so every \<open>Hello\<close> event throws and every other one is
  skipped, although the events it encodes are valid for its schema.
\<close>

theorem zod_date_never:
  "try_decode (hello_codec toISO HelloSchema_date) ev \<noteq> Inr (Some e)"
  by (auto simp: hello_codec_def upcast_codec_def upcast_body_def body_mapping_def json_any_def json_codec_def
           split: option.splits sum.splits if_splits)

end
