(* ===== verification/Dispatch.thy ===== *)
theory Dispatch
  imports Reader InvoiceAutoEmailer
begin

text \<open>
  The consumer that drives the invoice emailer (spec section 2: the reader
  polls a category, a dispatcher routes each batch to the per-stream handler,
  then the checkpoint advances).  The dispatcher and the source that runs
  \<open>createHandler\<close> are not under \<^verbatim>\<open>src/\<close>; they are modelled from the spec.
  The reader and the emailer share one message store: the reader's batches
  come from the store in the environment the handler threads.  The streams of
  a batch are handled one after the other, in the order of their first
  message.
\<close>

subsection \<open>The dispatcher\<close>

text \<open>\<open>StreamName.toString\<close>: category and id joined by a dash, the name the handler receives.\<close>

definition stream_name_string :: "stream_name \<Rightarrow> string" where
  "stream_name_string sn = sn_category sn @ ''-'' @ sn_id sn"

text \<open>
  A batch grouped by stream: each stream once, in the order of its first
  message, with its messages in batch order.
\<close>

function stream_spans :: "(stream_name \<times> 'f timeline_event) list \<Rightarrow> (stream_name \<times> 'f timeline_event list) list" where
  "stream_spans [] = []"
| "stream_spans ((sn, ev) # ms) =
     (sn, ev # map snd (filter (\<lambda>m. fst m = sn) ms)) # stream_spans (filter (\<lambda>m. fst m \<noteq> sn) ms)"
  by pat_completeness auto
termination
  by (relation "measure length") (auto simp: le_imp_less_Suc)

text \<open>The handler awaited on each span in turn; the first error stops the batch.\<close>

fun dispatch_spans ::
  "(string \<Rightarrow> 'f timeline_event list \<Rightarrow> 'e \<Rightarrow> error \<times> 'e + 'e) \<Rightarrow> (stream_name \<times> 'f timeline_event list) list
   \<Rightarrow> 'e \<Rightarrow> error \<times> 'e + 'e" where
  "dispatch_spans handle [] e = Inr e"
| "dispatch_spans handle ((sn, evs) # rest) e =
     (case handle (stream_name_string sn) evs e of
        Inl r \<Rightarrow> Inl r
      | Inr e' \<Rightarrow> dispatch_spans handle rest e')"

text \<open>
  The consumer loop with a handler: read a batch from the current store,
  dispatch it, and only then write the checkpoint; a handler error stops the
  loop with the checkpoints written so far.  Fuel as in \<open>consume\<close>.
\<close>

fun consume_dispatch ::
  "nat \<Rightarrow> (string \<Rightarrow> nat) \<Rightarrow> (string \<Rightarrow> 'f timeline_event list \<Rightarrow> ('s, 'f, 'x) env \<Rightarrow> error \<times> ('s, 'f, 'x) env + ('s, 'f, 'x) env)
   \<Rightarrow> 'f read_request \<Rightarrow> string \<Rightarrow> checkpoints \<Rightarrow> ('s, 'f, 'x) env
   \<Rightarrow> ((error \<times> checkpoints \<times> ('s, 'f, 'x) env) + (checkpoints \<times> ('s, 'f, 'x) env)) option" where
  "consume_dispatch 0 hash handle req grp cps e = None"
| "consume_dispatch (Suc n) hash handle req grp cps e =
     (case readCategoryMessages hash (env_store e) req of
        Inl err \<Rightarrow> Some (Inl (err, cps, e))
      | Inr b \<Rightarrow>
          (case dispatch_spans handle (stream_spans (b_messages b)) e of
             Inl (err, e') \<Rightarrow> Some (Inl (err, cps, e'))
           | Inr e' \<Rightarrow>
               let cps' = (if b_messages b = [] then cps else checkpoint_write cps (rq_category req) grp (b_checkpoint b))
               in if b_isTail b then Some (Inr (cps', e'))
                  else consume_dispatch n hash handle (req\<lparr>rq_from := b_checkpoint b + 1\<rparr>) grp cps' e'))"

subsection \<open>The emailer behind the dispatcher\<close>

text \<open>
  The invoice a span makes the emailer's handler act on: the guards of
  \<open>createHandler\<close> (lines 102--105), \<open>None\<close> when the handler returns at once.
\<close>

definition span_invoice ::
  "(string \<Rightarrow> string option) \<Rightarrow> (string timeline_event option \<Rightarrow> error + invoice_event option)
   \<Rightarrow> stream_name \<times> string timeline_event list \<Rightarrow> string option" where
  "span_invoice tryMatch tryDecode span =
     (case tryMatch (stream_name_string (fst span)) of
        None \<Rightarrow> None
      | Some invoiceId \<Rightarrow>
          if invoiceId = [] then None
          else case tryDecode (case snd span of [] \<Rightarrow> None | ev # _ \<Rightarrow> Some ev) of
                 Inr (Some (InvoiceRaised payerId amount)) \<Rightarrow> Some invoiceId
               | _ \<Rightarrow> None)"

text \<open>An emailer stream whose current state is \<open>EmailSent\<close>.\<close>

definition stream_sent :: "(string \<Rightarrow> bool) \<Rightarrow> (string \<Rightarrow> bool) \<Rightarrow> ae_env \<Rightarrow> stream_name \<Rightarrow> bool" where
  "stream_sent ve vu e sn =
     (case stream_state (ae_category ve vu) (env_store e) sn (stream_version (env_store e) sn) of
        Inl _ \<Rightarrow> False
      | Inr s \<Rightarrow> is_EmailSent s)"

text \<open>Every emailer stream holds events the emailer's codec reads.\<close>

abbreviation emailer_readable :: "(string \<Rightarrow> bool) \<Rightarrow> (string \<Rightarrow> bool) \<Rightarrow> (string \<Rightarrow> string) \<Rightarrow> ae_env \<Rightarrow> bool" where
  "emailer_readable ve vu ts e \<equiv>
     \<forall>iid. \<exists>s. stream_state (ae_category ve vu) (env_store e) (dc_stream (ae_resolve ve vu ts iid))
                 (stream_version (env_store e) (dc_stream (ae_resolve ve vu ts iid))) = Inr s"

subsection \<open>Lemmas: grouping a batch by stream\<close>

lemma stream_spans_names: "fst ` set (stream_spans ms) = fst ` set ms"
  by (induction ms rule: stream_spans.induct) (auto simp: image_iff)

text \<open>Each stream of the batch is dispatched once, with its messages in batch order.\<close>

lemma stream_spans_distinct: "distinct (map fst (stream_spans ms))"
  by (induction ms rule: stream_spans.induct) (auto simp: stream_spans_names)

lemma stream_spans_messages:
  "concat (map snd (filter (\<lambda>sp. fst sp = sn) (stream_spans ms))) = map snd (filter (\<lambda>m. fst m = sn) ms)"
proof (induction ms rule: stream_spans.induct)
  case (2 sn' ev ms)
  show ?case
  proof (cases "sn' = sn")
    case True
    have "filter (\<lambda>m. fst m = sn) (filter (\<lambda>m. fst m \<noteq> sn) ms) = []" by (auto simp: filter_empty_conv)
    then show ?thesis using "2" True by simp
  next
    case False
    then have "filter (\<lambda>x. fst x = sn \<and> fst x \<noteq> sn') ms = filter (\<lambda>m. fst m = sn) ms"
      by (intro filter_cong) auto
    then show ?thesis using "2" False by (simp add: conj_commute)
  qed
qed simp

subsection \<open>Lemmas: the dispatching consumer refines the consumer loop\<close>

text \<open>A read of a category other than the emailer's is not changed by emailer entries appended to the log.\<close>

lemma read_after_other_appends:
  assumes "\<forall>m \<in> set xs. sn_category (fst m) \<noteq> rq_category req"
  shows "readCategoryMessages hash (st\<lparr>st_log := st_log st @ xs\<rparr>) req = readCategoryMessages hash st req"
proof -
  have "filter (read_matches hash req) xs = []"
    using assms by (auto simp: filter_empty_conv read_matches_def)
  then show ?thesis by (simp add: readCategoryMessages_def)
qed

text \<open>
  A handler that, under an invariant of the environment, succeeds and only
  appends entries outside a category \<open>c\<close>: so does the whole dispatch of a
  batch.
\<close>

lemma dispatch_spans_appends_other:
  assumes h: "\<forall>sn evs e. I e \<longrightarrow> (\<exists>e' xs. handle (stream_name_string sn) evs e = Inr e' \<and> I e' \<and>
                 env_store e' = (env_store e)\<lparr>st_log := st_log (env_store e) @ xs\<rparr> \<and>
                 (\<forall>m \<in> set xs. sn_category (fst m) \<noteq> c))"
  shows "I e \<Longrightarrow> \<exists>e' xs. dispatch_spans handle spans e = Inr e' \<and> I e' \<and>
           env_store e' = (env_store e)\<lparr>st_log := st_log (env_store e) @ xs\<rparr> \<and> (\<forall>m \<in> set xs. sn_category (fst m) \<noteq> c)"
proof (induction spans arbitrary: e)
  case Nil
  then show ?case by (intro exI[of _ e] exI[of _ "[]"]) simp
next
  case (Cons sp rest)
  obtain sn evs where sp: "sp = (sn, evs)" by fastforce
  obtain e' xs where h1: "handle (stream_name_string sn) evs e = Inr e'" "I e'"
    "env_store e' = (env_store e)\<lparr>st_log := st_log (env_store e) @ xs\<rparr>" "\<forall>m \<in> set xs. sn_category (fst m) \<noteq> c"
    using h Cons.prems by blast
  obtain e'' ys where h2: "dispatch_spans handle rest e' = Inr e''" "I e''"
    "env_store e'' = (env_store e')\<lparr>st_log := st_log (env_store e') @ ys\<rparr>" "\<forall>m \<in> set ys. sn_category (fst m) \<noteq> c"
    using Cons.IH[OF h1(2)] by blast
  show ?case using h1 h2 sp by (intro exI[of _ e''] exI[of _ "xs @ ys"]) auto
qed

text \<open>
  The dispatching consumer refines the consumer loop of the reader: with such
  a handler, it ends exactly when \<open>consume\<close> on the store it started from
  does, with the same error or the same checkpoints.  What the handler writes
  to other categories never changes which batches are read or what is
  checkpointed.
\<close>

lemma consume_dispatch_refines_consume:
  assumes h: "\<forall>sn evs e. I e \<longrightarrow> (\<exists>e' xs. handle (stream_name_string sn) evs e = Inr e' \<and> I e' \<and>
                 env_store e' = (env_store e)\<lparr>st_log := st_log (env_store e) @ xs\<rparr> \<and>
                 (\<forall>m \<in> set xs. sn_category (fst m) \<noteq> c))"
  shows "I e \<Longrightarrow> env_store e = st0\<lparr>st_log := st_log st0 @ ys\<rparr> \<Longrightarrow> \<forall>m \<in> set ys. sn_category (fst m) \<noteq> c \<Longrightarrow>
         rq_category req = c \<Longrightarrow>
         map_option (map_sum fst fst) (consume_dispatch n hash handle req grp cps e) =
         map_option (map_sum id snd) (consume n hash st0 req grp cps)"
proof (induction n arbitrary: req cps e ys)
  case (Suc n)
  have rd: "readCategoryMessages hash (env_store e) req = readCategoryMessages hash st0 req"
    using read_after_other_appends[of ys req hash st0] Suc.prems(2-4) by simp
  show ?case
  proof (cases "readCategoryMessages hash st0 req")
    case (Inr b)
    obtain e' xs where d: "dispatch_spans handle (stream_spans (b_messages b)) e = Inr e'" "I e'"
      "env_store e' = (env_store e)\<lparr>st_log := st_log (env_store e) @ xs\<rparr>" "\<forall>m \<in> set xs. sn_category (fst m) \<noteq> c"
      using dispatch_spans_appends_other[OF h Suc.prems(1)] by blast
    have st': "env_store e' = st0\<lparr>st_log := st_log st0 @ (ys @ xs)\<rparr>" using d(3) Suc.prems(2) by simp
    define cps' where "cps' = (if b_messages b = [] then cps else checkpoint_write cps (rq_category req) grp (b_checkpoint b))"
    let ?req' = "req\<lparr>rq_from := b_checkpoint b + 1\<rparr>"
    have ih: "map_option (map_sum fst fst) (consume_dispatch n hash handle ?req' grp cps' e') =
              map_option (map_sum id snd) (consume n hash st0 ?req' grp cps')"
      by (rule Suc.IH[OF d(2) st']) (use Suc.prems(3,4) d(4) in auto)
    have tail: "map_option (map_sum id snd)
        (case consume n hash st0 ?req' grp cps' of None \<Rightarrow> None | Some (Inl err) \<Rightarrow> Some (Inl err)
           | Some (Inr (ms, cps'')) \<Rightarrow> Some (Inr (b_messages b @ ms, cps''))) =
        map_option (map_sum id snd) (consume n hash st0 ?req' grp cps')"
      by (auto split: option.split sum.split)
    show ?thesis
      using rd Inr d(1) ih tail by (simp add: Let_def cps'_def[symmetric] id_def)
  qed (use rd in simp)
qed simp

subsection \<open>Lemmas: one handler call\<close>

lemma stream_state_same_messages:
  "stream_messages st' sn = stream_messages st sn \<Longrightarrow>
   stream_state cat st' sn (stream_version st' sn) = stream_state cat st sn (stream_version st sn)"
  by (simp add: stream_state_def stream_version_def)

lemma stream_sent_same_messages:
  assumes "stream_messages (env_store e') sn = stream_messages (env_store e) sn"
  shows "stream_sent ve vu e' sn = stream_sent ve vu e sn"
  unfolding stream_sent_def using stream_state_same_messages[OF assms, of "ae_category ve vu"] by simp

lemma sendEmail_appends:
  assumes "Service_sendEmail ve vu ts rp ml iid payer amount e = Inr (r, e')"
  shows "\<exists>xs. env_store e' = (env_store e)\<lparr>st_log := st_log (env_store e) @ xs\<rparr> \<and>
              (\<forall>m \<in> set xs. fst m = dc_stream (ae_resolve ve vu ts iid))"
  using transact_appends[of "ae_resolve ve vu ts iid" "ae_decide rp ml payer amount" RequireLoad e] assms
  by (simp add: Service_sendEmail_def)

lemma sendEmail_other:
  assumes "sn \<noteq> dc_stream (ae_resolve ve vu ts iid)"
    and "Service_sendEmail ve vu ts rp ml iid payer amount e = Inr (r, e')"
  shows "stream_messages (env_store e') sn = stream_messages (env_store e) sn"
  using sendEmail_appends[OF assms(2)] assms(1) by (auto simp: stream_messages_def)

lemma span_invoice_SomeD:
  "span_invoice tryMatch tryDecode (sn, evs) = Some iid \<Longrightarrow>
   \<exists>payer amount. tryMatch (stream_name_string sn) = Some iid \<and> iid \<noteq> [] \<and>
     tryDecode (case evs of [] \<Rightarrow> None | ev # _ \<Rightarrow> Some ev) = Inr (Some (InvoiceRaised payer amount))"
  by (auto simp: span_invoice_def split: option.splits if_splits sum.splits invoice_event.splits)

lemma handler_ignores:
  "span_invoice tryMatch tryDecode (sn, evs) = None \<Longrightarrow> (\<forall>x r. tryDecode x \<noteq> Inl r) \<Longrightarrow>
   createHandler ve vu ts rp ml tryMatch tryDecode (stream_name_string sn) evs e = Inr e"
  by (auto simp: createHandler_def span_invoice_def split: option.splits if_splits sum.splits invoice_event.splits)

lemma handler_already_sent:
  assumes si: "span_invoice tryMatch tryDecode (sn, evs) = Some iid"
    and ok: "env_ok (ae_category ve vu) e"
    and cur: "stream_state (ae_category ve vu) (env_store e) (dc_stream (ae_resolve ve vu ts iid))
                (stream_version (env_store e) (dc_stream (ae_resolve ve vu ts iid))) = Inr s"
    and sent: "is_EmailSent s"
  shows "\<exists>e'. createHandler ve vu ts rp ml tryMatch tryDecode (stream_name_string sn) evs e = Inr e' \<and>
              env_ok (ae_category ve vu) e' \<and> env_store e' = env_store e \<and> env_effects e' = env_effects e"
proof -
  obtain payer amount where tm: "tryMatch (stream_name_string sn) = Some iid" and ne: "iid \<noteq> []"
    and td: "tryDecode (case evs of [] \<Rightarrow> None | ev # _ \<Rightarrow> Some ev) = Inr (Some (InvoiceRaised payer amount))"
    using span_invoice_SomeD[OF si] by blast
  have dec: "ae_decide rp ml payer amount s = ([], [])"
    using sent by (simp add: ae_decide_def is_EmailSent_def split: option.splits ae_event.splits)
  obtain e' where r: "Service_sendEmail ve vu ts rp ml iid payer amount e =
                        Inr ((stream_version (env_store e) (dc_stream (ae_resolve ve vu ts iid)) + int (length ([] :: ae_event list)),
                              ae_fold s []), e')"
    and ok': "env_ok (ae_category ve vu) e'"
    using sendEmail_current[OF ok cur dec] by auto
  from r sendEmail_no_events[OF ok cur dec] have "env_store e' = env_store e \<and> env_effects e' = env_effects e"
    by auto
  with r ok' tm ne td show ?thesis by (auto simp: createHandler_def)
qed

lemma handler_sends:
  assumes si: "span_invoice tryMatch tryDecode (sn, evs) = Some iid"
    and ok: "env_ok (ae_category ve vu) e"
    and cur: "stream_state (ae_category ve vu) (env_store e) (dc_stream (ae_resolve ve vu ts iid))
                (stream_version (env_store e) (dc_stream (ae_resolve ve vu ts iid))) = Inr s"
    and unsent: "\<not> is_EmailSent s"
    and svc: "\<forall>p. \<exists>em. rp p = Some em \<and> ve em" "\<forall>p. vu p" "\<forall>em sb b. ml em sb b = MailSent"
  shows "\<exists>e' em payer. createHandler ve vu ts rp ml tryMatch tryDecode (stream_name_string sn) evs e = Inr e' \<and>
              env_ok (ae_category ve vu) e' \<and>
              stream_state (ae_category ve vu) (env_store e') (dc_stream (ae_resolve ve vu ts iid))
                (stream_version (env_store e') (dc_stream (ae_resolve ve vu ts iid))) =
                Inr (Some (EmailSent \<lparr>sent_email = em, sent_payer_id = payer\<rparr>)) \<and>
              (\<exists>xs. env_store e' = (env_store e)\<lparr>st_log := st_log (env_store e) @ xs\<rparr> \<and>
                 (\<forall>m \<in> set xs. fst m = dc_stream (ae_resolve ve vu ts iid)))"
proof -
  obtain payer amount where tm: "tryMatch (stream_name_string sn) = Some iid" and ne: "iid \<noteq> []"
    and td: "tryDecode (case evs of [] \<Rightarrow> None | ev # _ \<Rightarrow> Some ev) = Inr (Some (InvoiceRaised payer amount))"
    using span_invoice_SomeD[OF si] by blast
  obtain em where em: "rp payer = Some em" "ve em" using svc(1) by blast
  let ?ev = "EmailSent \<lparr>sent_email = em, sent_payer_id = payer\<rparr>"
  have dec: "ae_decide rp ml payer amount s = ([ReadProfile payer, SendMail em (mail_subject amount) (mail_body amount)], [?ev])"
    using unsent em svc(3) by (simp add: ae_decide_def is_EmailSent_def split: option.splits ae_event.splits)
  have valid: "\<And>ev. ev \<in> set [?ev] \<Longrightarrow> ae_valid ve vu ev" using em svc(2) by (simp add: ae_valid_def)
  obtain r e' where r: "Service_sendEmail ve vu ts rp ml iid payer amount e = Inr (r, e')"
    and ok': "env_ok (ae_category ve vu) e'"
    and st: "stream_state (ae_category ve vu) (env_store e') (dc_stream (ae_resolve ve vu ts iid))
               (stream_version (env_store e') (dc_stream (ae_resolve ve vu ts iid))) = Inr (ae_fold s [?ev])"
    using sendEmail_current[OF ok cur dec valid] by blast
  have "ae_fold s [?ev] = Some ?ev" by (simp add: ae_fold_def)
  with r ok' st sendEmail_appends[OF r] tm ne td show ?thesis
    by (intro exI[of _ e'] exI[of _ em] exI[of _ payer]) (auto simp: createHandler_def)
qed

lemma stream_state_log_append_other:
  assumes "\<forall>m \<in> set xs. fst m \<noteq> sn"
  shows "stream_state cat (st\<lparr>st_log := st_log st @ xs\<rparr>) sn (stream_version (st\<lparr>st_log := st_log st @ xs\<rparr>) sn) =
         stream_state cat st sn (stream_version st sn)"
  by (rule stream_state_same_messages) (use assms in \<open>auto simp: stream_messages_def filter_empty_conv\<close>)

lemma ae_stream_category [simp]: "sn_category (dc_stream (ae_resolve ve vu ts iid)) = CATEGORY"
  by (simp add: ae_resolve_def)

text \<open>
  Entries appended to one emailer stream that leave it sent keep the
  environment readable and every sent stream sent.
\<close>

lemma append_own_sent:
  assumes xs: "env_store e' = (env_store e)\<lparr>st_log := st_log (env_store e) @ xs\<rparr>"
    and own: "\<forall>m \<in> set xs. fst m = dc_stream (ae_resolve ve vu ts iid)"
    and st': "stream_state (ae_category ve vu) (env_store e') (dc_stream (ae_resolve ve vu ts iid))
                (stream_version (env_store e') (dc_stream (ae_resolve ve vu ts iid))) = Inr s'"
    and sent': "is_EmailSent s'" and rd: "emailer_readable ve vu ts e"
  shows "emailer_readable ve vu ts e' \<and> stream_sent ve vu e' (dc_stream (ae_resolve ve vu ts iid)) \<and>
         (\<forall>sn'. stream_sent ve vu e sn' \<longrightarrow> stream_sent ve vu e' sn')"
proof -
  let ?own = "dc_stream (ae_resolve ve vu ts iid)"
  have other: "stream_state (ae_category ve vu) (env_store e') sn' (stream_version (env_store e') sn') =
               stream_state (ae_category ve vu) (env_store e) sn' (stream_version (env_store e) sn')"
    if "sn' \<noteq> ?own" for sn'
    unfolding xs by (rule stream_state_log_append_other) (use own that in auto)
  have "emailer_readable ve vu ts e'"
  proof
    fix iid'
    show "\<exists>s. stream_state (ae_category ve vu) (env_store e') (dc_stream (ae_resolve ve vu ts iid'))
               (stream_version (env_store e') (dc_stream (ae_resolve ve vu ts iid'))) = Inr s"
      using rd st' other[of "dc_stream (ae_resolve ve vu ts iid')"]
      by (cases "dc_stream (ae_resolve ve vu ts iid') = ?own") auto
  qed
  moreover have "stream_sent ve vu e' ?own" using st' sent' by (simp add: stream_sent_def)
  moreover have "stream_sent ve vu e sn' \<longrightarrow> stream_sent ve vu e' sn'" for sn'
    using \<open>stream_sent ve vu e' ?own\<close> other[of sn'] by (cases "sn' = ?own") (auto simp: stream_sent_def)
  ultimately show ?thesis by blast
qed

text \<open>
  One handler call on a readable, well-formed environment, with a working
  payer service and mailer: it succeeds, keeps the environment readable and
  well formed, appends only emailer entries, keeps every sent stream sent, and
  leaves the span's invoice sent.
\<close>

lemma handler_step:
  assumes ok: "env_ok (ae_category ve vu) e" and rd: "emailer_readable ve vu ts e"
    and nodec: "\<forall>x r. tryDecode x \<noteq> Inl r"
    and svc: "\<forall>p. \<exists>em. rp p = Some em \<and> ve em" "\<forall>p. vu p" "\<forall>em sb b. ml em sb b = MailSent"
  shows "\<exists>e' xs. createHandler ve vu ts rp ml tryMatch tryDecode (stream_name_string sn) evs e = Inr e' \<and>
           env_ok (ae_category ve vu) e' \<and> emailer_readable ve vu ts e' \<and>
           env_store e' = (env_store e)\<lparr>st_log := st_log (env_store e) @ xs\<rparr> \<and>
           (\<forall>m \<in> set xs. sn_category (fst m) = CATEGORY) \<and>
           (\<forall>sn'. stream_sent ve vu e sn' \<longrightarrow> stream_sent ve vu e' sn') \<and>
           (\<forall>iid. span_invoice tryMatch tryDecode (sn, evs) = Some iid \<longrightarrow> stream_sent ve vu e' (dc_stream (ae_resolve ve vu ts iid)))"
proof (cases "span_invoice tryMatch tryDecode (sn, evs)")
  case None
  then show ?thesis
    using handler_ignores[OF None nodec] ok rd by (intro exI[of _ e] exI[of _ "[]"]) auto
next
  case (Some iid)
  let ?own = "dc_stream (ae_resolve ve vu ts iid)"
  obtain s where cur: "stream_state (ae_category ve vu) (env_store e) ?own (stream_version (env_store e) ?own) = Inr s"
    using rd by blast
  show ?thesis
  proof (cases "is_EmailSent s")
    case True
    from handler_already_sent[OF Some ok cur True] obtain e' where
      h: "createHandler ve vu ts rp ml tryMatch tryDecode (stream_name_string sn) evs e = Inr e'"
      and ok': "env_ok (ae_category ve vu) e'" and st: "env_store e' = env_store e" by blast
    have "stream_sent ve vu e' ?own" using cur True st by (simp add: stream_sent_def)
    then show ?thesis
      using h ok' st rd Some by (intro exI[of _ e'] exI[of _ "[]"]) (simp add: stream_sent_def)
  next
    case False
    from handler_sends[OF Some ok cur False svc] obtain e' em payer xs where
      h: "createHandler ve vu ts rp ml tryMatch tryDecode (stream_name_string sn) evs e = Inr e'"
      and ok': "env_ok (ae_category ve vu) e'"
      and st': "stream_state (ae_category ve vu) (env_store e') ?own (stream_version (env_store e') ?own) =
                  Inr (Some (EmailSent \<lparr>sent_email = em, sent_payer_id = payer\<rparr>))"
      and xs: "env_store e' = (env_store e)\<lparr>st_log := st_log (env_store e) @ xs\<rparr>"
      and own: "\<forall>m \<in> set xs. fst m = ?own" by blast
    have "emailer_readable ve vu ts e' \<and> stream_sent ve vu e' ?own \<and>
          (\<forall>sn'. stream_sent ve vu e sn' \<longrightarrow> stream_sent ve vu e' sn')"
      by (rule append_own_sent[OF xs own st' _ rd]) (simp add: is_EmailSent_def)
    then have rd': "emailer_readable ve vu ts e'" and sent_own: "stream_sent ve vu e' ?own"
      and keep: "\<forall>sn'. stream_sent ve vu e sn' \<longrightarrow> stream_sent ve vu e' sn'" by blast+
    show ?thesis
      using h ok' rd' xs own keep sent_own Some by (intro exI[of _ e'] exI[of _ xs]) auto
  qed
qed

text \<open>A handler call whose invoice is already sent succeeds and changes neither the store nor the effects.\<close>

lemma handler_step_sent:
  assumes ok: "env_ok (ae_category ve vu) e" and nodec: "\<forall>x r. tryDecode x \<noteq> Inl r"
    and sent: "\<And>iid. span_invoice tryMatch tryDecode (sn, evs) = Some iid \<Longrightarrow> stream_sent ve vu e (dc_stream (ae_resolve ve vu ts iid))"
  shows "\<exists>e'. createHandler ve vu ts rp ml tryMatch tryDecode (stream_name_string sn) evs e = Inr e' \<and>
           env_ok (ae_category ve vu) e' \<and> env_store e' = env_store e \<and> env_effects e' = env_effects e"
proof (cases "span_invoice tryMatch tryDecode (sn, evs)")
  case None
  then show ?thesis using handler_ignores[OF None nodec] ok by auto
next
  case (Some iid)
  obtain s where cur: "stream_state (ae_category ve vu) (env_store e) (dc_stream (ae_resolve ve vu ts iid))
      (stream_version (env_store e) (dc_stream (ae_resolve ve vu ts iid))) = Inr s" and se: "is_EmailSent s"
    using sent[OF Some] by (auto simp: stream_sent_def split: sum.splits)
  show ?thesis by (rule handler_already_sent[OF Some ok cur se])
qed

subsection \<open>Lemmas: a batch\<close>

text \<open>
  The first delivery of a batch succeeds, appends only emailer entries, and
  leaves every invoice the batch raises in the sent state.
\<close>

lemma dispatch_first_pass:
  assumes nodec: "\<forall>x r. tryDecode x \<noteq> Inl r"
    and svc: "\<forall>p. \<exists>em. rp p = Some em \<and> ve em" "\<forall>p. vu p" "\<forall>em sb b. ml em sb b = MailSent"
  shows "env_ok (ae_category ve vu) e \<Longrightarrow> emailer_readable ve vu ts e \<Longrightarrow>
         \<exists>e1 xs. dispatch_spans (createHandler ve vu ts rp ml tryMatch tryDecode) spans e = Inr e1 \<and>
           env_ok (ae_category ve vu) e1 \<and> emailer_readable ve vu ts e1 \<and>
           env_store e1 = (env_store e)\<lparr>st_log := st_log (env_store e) @ xs\<rparr> \<and>
           (\<forall>m \<in> set xs. sn_category (fst m) = CATEGORY) \<and>
           (\<forall>sn'. stream_sent ve vu e sn' \<longrightarrow> stream_sent ve vu e1 sn') \<and>
           (\<forall>sp \<in> set spans. \<forall>iid. span_invoice tryMatch tryDecode sp = Some iid \<longrightarrow>
              stream_sent ve vu e1 (dc_stream (ae_resolve ve vu ts iid)))"
proof (induction spans arbitrary: e)
  case Nil
  then show ?case by (intro exI[of _ e] exI[of _ "[]"]) simp
next
  case (Cons sp rest)
  obtain sn evs where sp: "sp = (sn, evs)" by fastforce
  from handler_step[where tryMatch = tryMatch and sn = sn and evs = evs, OF Cons.prems nodec svc] obtain e' xs where
    h: "createHandler ve vu ts rp ml tryMatch tryDecode (stream_name_string sn) evs e = Inr e'"
    and ok': "env_ok (ae_category ve vu) e'" and rd': "emailer_readable ve vu ts e'"
    and xs: "env_store e' = (env_store e)\<lparr>st_log := st_log (env_store e) @ xs\<rparr>"
    and cat: "\<forall>m \<in> set xs. sn_category (fst m) = CATEGORY"
    and keep: "\<forall>sn'. stream_sent ve vu e sn' \<longrightarrow> stream_sent ve vu e' sn'"
    and now: "\<forall>iid. span_invoice tryMatch tryDecode (sn, evs) = Some iid \<longrightarrow> stream_sent ve vu e' (dc_stream (ae_resolve ve vu ts iid))"
    by blast
  from Cons.IH[OF ok' rd'] obtain e1 ys where
    r: "dispatch_spans (createHandler ve vu ts rp ml tryMatch tryDecode) rest e' = Inr e1"
    and ok1: "env_ok (ae_category ve vu) e1" and rd1: "emailer_readable ve vu ts e1"
    and ys: "env_store e1 = (env_store e')\<lparr>st_log := st_log (env_store e') @ ys\<rparr>"
    and cat': "\<forall>m \<in> set ys. sn_category (fst m) = CATEGORY"
    and keep': "\<forall>sn'. stream_sent ve vu e' sn' \<longrightarrow> stream_sent ve vu e1 sn'"
    and all: "\<forall>sp \<in> set rest. \<forall>iid. span_invoice tryMatch tryDecode sp = Some iid \<longrightarrow>
                stream_sent ve vu e1 (dc_stream (ae_resolve ve vu ts iid))"
    by blast
  show ?case
    using h r ok1 rd1 xs ys cat cat' keep keep' now all unfolding sp
    by (intro exI[of _ e1] exI[of _ "xs @ ys"]) auto
qed

text \<open>A batch whose raised invoices are all sent is delivered without a change to the store or the effects.\<close>

lemma dispatch_second_pass:
  assumes nodec: "\<forall>x r. tryDecode x \<noteq> Inl r"
  shows "env_ok (ae_category ve vu) e \<Longrightarrow>
         (\<forall>sp \<in> set spans. \<forall>iid. span_invoice tryMatch tryDecode sp = Some iid \<longrightarrow>
            stream_sent ve vu e (dc_stream (ae_resolve ve vu ts iid))) \<Longrightarrow>
         \<exists>e2. dispatch_spans (createHandler ve vu ts rp ml tryMatch tryDecode) spans e = Inr e2 \<and>
           env_store e2 = env_store e \<and> env_effects e2 = env_effects e"
proof (induction spans arbitrary: e)
  case Nil
  then show ?case by simp
next
  case (Cons sp rest)
  obtain sn evs where sp: "sp = (sn, evs)" by fastforce
  have sent: "\<And>iid. span_invoice tryMatch tryDecode (sn, evs) = Some iid \<Longrightarrow> stream_sent ve vu e (dc_stream (ae_resolve ve vu ts iid))"
    using Cons.prems(2) sp by simp
  from handler_step_sent[where rp = rp and ml = ml, OF Cons.prems(1) nodec sent] obtain e' where
    h: "createHandler ve vu ts rp ml tryMatch tryDecode (stream_name_string sn) evs e = Inr e'"
    and ok': "env_ok (ae_category ve vu) e'" and st: "env_store e' = env_store e" and eff: "env_effects e' = env_effects e"
    by blast
  have "\<forall>sp \<in> set rest. \<forall>iid. span_invoice tryMatch tryDecode sp = Some iid \<longrightarrow>
          stream_sent ve vu e' (dc_stream (ae_resolve ve vu ts iid))"
    using Cons.prems(2) st by (simp add: stream_sent_def)
  from Cons.IH[OF ok' this] h st eff sp show ?case by auto
qed

text \<open>
  C27.  Redelivery is harmless: when the consumer handles a batch of a
  category other than the emailer's and stops before writing its checkpoint,
  the restarted consumer reads the same batch again, and handling it a second
  time succeeds without a mail, a payer lookup or a write, provided the payer
  service and the mailer work and the invoice events decode.
\<close>

theorem dispatch_redelivery_harmless:
  assumes ok: "env_ok (ae_category ve vu) e" and rd: "emailer_readable ve vu ts e"
    and nodec: "\<forall>x r. tryDecode x \<noteq> Inl r"
    and svc: "\<forall>p. \<exists>em. rp p = Some em \<and> ve em" "\<forall>p. vu p" "\<forall>em sb b. ml em sb b = MailSent"
    and other: "rq_category req \<noteq> CATEGORY"
    and rb: "readCategoryMessages hash (env_store e) req = Inr b"
  shows "\<exists>e1 e2. dispatch_spans (createHandler ve vu ts rp ml tryMatch tryDecode) (stream_spans (b_messages b)) e = Inr e1 \<and>
           readCategoryMessages hash (env_store e1) req = Inr b \<and>
           dispatch_spans (createHandler ve vu ts rp ml tryMatch tryDecode) (stream_spans (b_messages b)) e1 = Inr e2 \<and>
           env_store e2 = env_store e1 \<and> env_effects e2 = env_effects e1"
proof -
  let ?H = "createHandler ve vu ts rp ml tryMatch tryDecode"
  from dispatch_first_pass[where tryMatch = tryMatch and spans = "stream_spans (b_messages b)", OF nodec svc ok rd] obtain e1 xs where
    r1: "dispatch_spans ?H (stream_spans (b_messages b)) e = Inr e1"
    and ok1: "env_ok (ae_category ve vu) e1"
    and xs: "env_store e1 = (env_store e)\<lparr>st_log := st_log (env_store e) @ xs\<rparr>"
    and cat: "\<forall>m \<in> set xs. sn_category (fst m) = CATEGORY"
    and sent: "\<forall>sp \<in> set (stream_spans (b_messages b)). \<forall>iid. span_invoice tryMatch tryDecode sp = Some iid \<longrightarrow>
                 stream_sent ve vu e1 (dc_stream (ae_resolve ve vu ts iid))"
    by blast
  have "readCategoryMessages hash (env_store e1) req = Inr b"
    unfolding xs using read_after_other_appends[of xs req hash "env_store e"] cat other rb by auto
  with r1 dispatch_second_pass[where rp = rp and ml = ml, OF nodec ok1 sent] show ?thesis by blast
qed

theorem dispatch_redelivery_harmless_witness:
  "\<exists>e1 e2.
     dispatch_spans (createHandler (\<lambda>_. True) (\<lambda>_. True) (\<lambda>x. x) (\<lambda>_. Some ''ann@example.com'') (\<lambda>_ _ _. MailSent)
         (\<lambda>_. Some ''inv1'') (\<lambda>_. Inr (Some (InvoiceRaised ''p1'' 100))))
       (stream_spans [(StreamName ''Invoice'' ''inv1'', to_timeline \<lparr>ev_id = None, ev_type = ''InvoiceRaised'', ev_data = None, ev_meta = None\<rparr> 0 1)])
       \<lparr>env_store = \<lparr>st_log = [(StreamName ''Invoice'' ''inv1'', to_timeline \<lparr>ev_id = None, ev_type = ''InvoiceRaised'', ev_data = None, ev_meta = None\<rparr> 0 1)],
                     st_sql_condition = False\<rparr>,
        env_cache = Map.empty, env_effects = []\<rparr> = Inr e1 \<and>
     readCategoryMessages (\<lambda>_. 0) (env_store e1)
       \<lparr>rq_category = ''Invoice'', rq_from = 0, rq_batch = 10, rq_condition = None, rq_member = None, rq_size = None\<rparr> =
       Inr \<lparr>b_messages = [(StreamName ''Invoice'' ''inv1'', to_timeline \<lparr>ev_id = None, ev_type = ''InvoiceRaised'', ev_data = None, ev_meta = None\<rparr> 0 1)],
            b_checkpoint = 1, b_isTail = True\<rparr> \<and>
     dispatch_spans (createHandler (\<lambda>_. True) (\<lambda>_. True) (\<lambda>x. x) (\<lambda>_. Some ''ann@example.com'') (\<lambda>_ _ _. MailSent)
         (\<lambda>_. Some ''inv1'') (\<lambda>_. Inr (Some (InvoiceRaised ''p1'' 100))))
       (stream_spans [(StreamName ''Invoice'' ''inv1'', to_timeline \<lparr>ev_id = None, ev_type = ''InvoiceRaised'', ev_data = None, ev_meta = None\<rparr> 0 1)])
       e1 = Inr e2 \<and>
     env_store e2 = env_store e1 \<and> env_effects e2 = env_effects e1"
proof -
  let ?m = "(StreamName ''Invoice'' ''inv1'', to_timeline \<lparr>ev_id = None, ev_type = ''InvoiceRaised'', ev_data = None, ev_meta = None\<rparr> 0 1)"
  let ?e = "\<lparr>env_store = \<lparr>st_log = [?m], st_sql_condition = False\<rparr>, env_cache = Map.empty, env_effects = ([] :: ae_effect list)\<rparr>"
  have ok: "env_ok (ae_category (\<lambda>_. True) (\<lambda>_. True)) ?e"
    by (simp add: env_ok_def store_wf_def cache_coherent_def stream_messages_def)
  have rd: "emailer_readable (\<lambda>_. True) (\<lambda>_. True) (\<lambda>x. x) ?e"
    by (simp add: stream_state_def stream_messages_def ae_resolve_def ae_streamId_def CATEGORY_def)
  have rb: "readCategoryMessages (\<lambda>_. 0) (env_store ?e)
       \<lparr>rq_category = ''Invoice'', rq_from = 0, rq_batch = 10, rq_condition = None, rq_member = None, rq_size = None\<rparr> =
       Inr \<lparr>b_messages = [?m], b_checkpoint = 1, b_isTail = True\<rparr>"
    by (simp add: readCategoryMessages_def read_matches_def in_shard_def)
  show ?thesis
    using dispatch_redelivery_harmless[OF ok rd _ _ _ _ _ rb] by (simp add: CATEGORY_def)
qed

lemma map_sum_fst_Inr: "map_sum f fst a = Inr c \<longleftrightarrow> (\<exists>x. a = Inr (c, x))"
  by (cases a) auto

text \<open>
  C30.  The emailer's consumer reaches the tail: on a well-formed store, reading a
  category other than the emailer's with a positive batch size and enough
  fuel, the dispatching consumer with \<open>createHandler\<close> returns, with the
  checkpoint of the group at the last message of the category (unchanged
  when there is none), whatever the handler wrote.
\<close>

theorem emailer_consumer_completes:
  fixes hash :: "string \<Rightarrow> nat"
  assumes ok: "env_ok (ae_category ve vu) e" and rd: "emailer_readable ve vu ts e"
    and nodec: "\<forall>x r. tryDecode x \<noteq> Inl r"
    and svc: "\<forall>p. \<exists>em. rp p = Some em \<and> ve em" "\<forall>p. vu p" "\<forall>em sb b. ml em sb b = MailSent"
    and other: "rq_category req \<noteq> CATEGORY" and b: "0 < rq_batch req" and rok: "read_ok (env_store e) req"
    and fuel: "length (filter (read_matches hash req) (st_log (env_store e))) div rq_batch req < n"
  shows "\<exists>e'. consume_dispatch n hash (createHandler ve vu ts rp ml tryMatch tryDecode) req grp cps e =
           Some (Inr (if filter (read_matches hash req) (st_log (env_store e)) = [] then cps
                      else checkpoint_write cps (rq_category req) grp
                             (ev_global (snd (last (filter (read_matches hash req) (st_log (env_store e)))))), e'))"
proof -
  let ?I = "\<lambda>e. env_ok (ae_category ve vu) e \<and> emailer_readable ve vu ts e"
  have h: "\<forall>sn evs e. ?I e \<longrightarrow> (\<exists>e' xs. createHandler ve vu ts rp ml tryMatch tryDecode (stream_name_string sn) evs e = Inr e' \<and>
             ?I e' \<and> env_store e' = (env_store e)\<lparr>st_log := st_log (env_store e) @ xs\<rparr> \<and>
             (\<forall>m \<in> set xs. sn_category (fst m) \<noteq> rq_category req))"
  proof (intro allI impI)
    fix sn evs e assume "?I e"
    with handler_step[where tryMatch = tryMatch and sn = sn and evs = evs, OF _ _ nodec svc] other
    show "\<exists>e' xs. createHandler ve vu ts rp ml tryMatch tryDecode (stream_name_string sn) evs e = Inr e' \<and>
             ?I e' \<and> env_store e' = (env_store e)\<lparr>st_log := st_log (env_store e) @ xs\<rparr> \<and>
             (\<forall>m \<in> set xs. sn_category (fst m) \<noteq> rq_category req)"
      by fastforce
  qed
  have wf: "store_wf (env_store e)" using ok by (simp add: env_ok_def)
  have "map_option (map_sum fst fst) (consume_dispatch n hash (createHandler ve vu ts rp ml tryMatch tryDecode) req grp cps e) =
        map_option (map_sum id snd) (consume n hash (env_store e) req grp cps)"
    by (rule consume_dispatch_refines_consume[OF h, where ys = "[]"]) (use ok rd in simp_all)
  then show ?thesis
    unfolding consume_complete[OF wf b rok fuel]
    by (cases "consume_dispatch n hash (createHandler ve vu ts rp ml tryMatch tryDecode) req grp cps e")
       (auto simp: map_sum_fst_Inr)
qed

theorem emailer_consumer_completes_witness:
  "\<exists>e'. consume_dispatch 1 (\<lambda>_. 0)
          (createHandler (\<lambda>_. True) (\<lambda>_. True) (\<lambda>x. x) (\<lambda>_. Some ''ann@example.com'') (\<lambda>_ _ _. MailSent)
             (\<lambda>_. Some ''inv1'') (\<lambda>_. Inr (Some (InvoiceRaised ''p1'' 100))))
          \<lparr>rq_category = ''Invoice'', rq_from = 0, rq_batch = 10, rq_condition = None, rq_member = None, rq_size = None\<rparr>
          ''emailer'' Map.empty
          \<lparr>env_store = \<lparr>st_log = [(StreamName ''Invoice'' ''inv1'', to_timeline \<lparr>ev_id = None, ev_type = ''InvoiceRaised'', ev_data = None, ev_meta = None\<rparr> 0 1)],
                        st_sql_condition = False\<rparr>,
           env_cache = Map.empty, env_effects = []\<rparr> =
        Some (Inr (checkpoint_write Map.empty ''Invoice'' ''emailer'' 1, e'))"
proof -
  let ?m = "(StreamName ''Invoice'' ''inv1'', to_timeline \<lparr>ev_id = None, ev_type = ''InvoiceRaised'', ev_data = None, ev_meta = None\<rparr> 0 1)"
  let ?e = "\<lparr>env_store = \<lparr>st_log = [?m], st_sql_condition = False\<rparr>, env_cache = Map.empty, env_effects = ([] :: ae_effect list)\<rparr>"
  have ok: "env_ok (ae_category (\<lambda>_. True) (\<lambda>_. True)) ?e"
    by (simp add: env_ok_def store_wf_def cache_coherent_def stream_messages_def)
  have rd: "emailer_readable (\<lambda>_. True) (\<lambda>_. True) (\<lambda>x. x) ?e"
    by (simp add: stream_state_def stream_messages_def ae_resolve_def ae_streamId_def CATEGORY_def)
  show ?thesis
    using emailer_consumer_completes[OF ok rd, where req = "\<lparr>rq_category = ''Invoice'', rq_from = 0, rq_batch = 10,
            rq_condition = None, rq_member = None, rq_size = None\<rparr>" and n = 1 and hash = "\<lambda>_. 0"
            and tryMatch = "\<lambda>_. Some ''inv1''" and tryDecode = "\<lambda>_. Inr (Some (InvoiceRaised ''p1'' 100))"
            and rp = "\<lambda>_. Some ''ann@example.com''" and ml = "\<lambda>_ _ _. MailSent" and grp = "''emailer''" and cps = Map.empty]
    by (simp add: CATEGORY_def read_ok_def read_matches_def in_shard_def)
qed

end
