(* ===== verification/Spec2Isabelle.thy ===== *)
theory Spec2Isabelle
  imports Concurrency Reader DocsConfig AccessStrategy CodecTests Dispatch
begin

text \<open>
  \<^bold>\<open>A verification library for equinox-js.\<close>

  equinox-js is an event-sourcing library: typed domain events are encoded by
  a \<^emph>\<open>codec\<close> into stream events, appended to a \<^emph>\<open>message store\<close> with
  optimistic concurrency, and read back and folded into a state by a
  \<^emph>\<open>category\<close>, which keeps a cache of folded states.  A \<^emph>\<open>decider\<close> runs a
  decision on the current state of one stream and appends the events it
  decides, retrying a bounded number of times on a version conflict.  A
  consumer reads a category in batches, optionally as one member of a consumer
  group, and persists a checkpoint per batch.  The sources under
  \<^verbatim>\<open>src/\<close> are the codec module of the core package, two example domains that
  use the engine, the category reader's test and the documentation site's
  configuration; the engine itself (store, category, decider) and the reader
  are not under \<^verbatim>\<open>src/\<close> and are modelled from the specification.

  \<^medskip>\<^bold>\<open>Theories.\<close>
  \<^item> \<open>Prelude\<close>: versions and positions as unbounded integers (they are
    \<open>bigint\<close>s in the code), the error datatype of the engine (every exception
    or rejected promise of the code is a constructor, and fallible operations
    return \<open>error + 'a\<close>), the composability of a fold, and list lemmas.
  \<^item> \<open>Json\<close>: \<open>JSON.stringify\<close> (\<open>stringify\<close>) and \<open>JSON.parse\<close>
    (\<open>json_parse\<close>, a recursive-descent parser with fuel), with the round trip
    \<open>json_parse (stringify v) = Some v\<close> for values whose objects have distinct
    keys.  The fuel is the length of the text plus one, which the round-trip
    proof shows is enough for every printed value.
  \<^item> \<open>Codec\<close>: \<^verbatim>\<open>packages/core/src/lib/Codec.ts\<close>.  The \<open>Codec\<close> type is the
    record \<open>codec\<close> (\<open>try_decode\<close> may throw, skip or yield; \<open>encode\<close> takes a
    context); \<open>PassThroughCodec\<close>, \<open>AsyncCodec.map\<close> (\<open>map_codec\<close>),
    \<open>AsyncCodec.deflate\<close> (\<open>deflate_codec\<close>, with \<open>deflate_encode\<close> and
    \<open>deflate_decode\<close> on the pair \<open>[encoding, bytes]\<close>, bytes being \<open>8 word\<close>
    lists) and \<open>unsafeEmpty\<close>.  The zlib pair is a parameter bound by
    \<open>zlib_contract\<close> (a non-empty compressed form that inflates back).
    \<open>Codec.json\<close> and \<open>Codec.upcast\<close>, which the domains use, are modelled from the
    spec and the codec tests.  Lemmas: round trips of the map, deflate, JSON
    and upcast codecs, the smallest-wins choice of the deflate codec, and its
    decompression error.
  \<^item> \<open>Store\<close>: the message store as a log of \<open>(stream, timeline event)\<close> pairs,
    \<open>write_messages\<close> (append at an expected version or a \<open>VersionConflict\<close>),
    \<open>read_stream\<close>, the cache as a map from streams to \<open>(version, state)\<close>, and
    the category's \<open>load\<close> (cached, incremental, with the four load options) and
    \<open>append\<close>.  The invariants are \<open>store_wf\<close> (consecutive global positions and
    stream indexes) and \<open>cache_coherent\<close> (every cache entry is the fold of the
    stream up to its version).  Lemmas: writes keep \<open>store_wf\<close>; a fresh load
    equals the full replay of the stream (\<open>load_fresh\<close>, which needs the fold to
    be composable); load and append keep the cache coherent.
  \<^item> \<open>Decider\<close>: \<open>transact\<close> as a load followed by \<open>transact_loop\<close>, whose body
    \<open>sync_attempt\<close> runs the decision, logs its external effects, and appends;
    on a conflict it reloads and retries until \<open>dc_max_attempts\<close>, then fails
    with \<open>RetryBudgetExceeded\<close>.  The loop is a \<open>function\<close> that terminates by
    the measure \<open>max_attempts - attempt\<close>.  \<open>query\<close> is a load and a
    projection.  Lemmas: a transact on a fresh load commits the decision on the
    current state; on a stale cached state it retries once and commits the
    decision on the current state; with a budget of one attempt it fails; the
    decision runs at most \<open>max_attempts\<close> times; whatever its outcome, a
    transaction only appends log entries of its own stream
    (\<open>transact_appends\<close>).
  \<^item> \<open>ContactPreferences\<close>: \<^verbatim>\<open>apps/store-integration/src/domain/ContactPreferences.ts\<close>,
    every definition of the module (ids, events, codec, fold, \<open>Decide.update\<close>,
    and the service's \<open>update\<close>, \<open>read\<close>, \<open>readStale\<close> and \<open>create\<close>).  The
    service's claims (read after update, idempotent update, what an update
    writes, the parse error, stale reads, fold as replay) are proved there on
    top of the Decider lemmas.
  \<^item> \<open>InvoiceAutoEmailer\<close>: \<^verbatim>\<open>apps/example/src/domain/invoice-auto-emailer.ts\<close>:
    the stream id, the two events and their zod schemas (\<open>EmailSentSchema_parse\<close>,
    \<open>EmailFailureSchema_parse\<close>), the upcast codec, the fold, \<open>ae_decide\<close> (the
    decision of \<open>Service.sendEmail\<close>, which returns the payer lookup and the mail
    it makes as external effects \<open>ae_effect\<close> together with its events), the
    service's \<open>sendEmail\<close> and \<open>inspectState\<close>, and \<open>createHandler\<close>.  Lemmas:
    a second \<open>sendEmail\<close> sends nothing, the first sends one mail and records
    \<open>EmailSent\<close>, a missing payer or a throwing mailer records
    \<open>EmailSendingFailed\<close>, the codec skips unknown types and rejects invalid
    payloads, and a redelivered \<open>InvoiceRaised\<close> mails once.
  \<^item> \<open>Concurrency\<close>: several \<open>transact\<close> calls of one process as tasks sharing
    the store, the cache and the effect log; a task step is a load or one
    \<open>sync_attempt\<close>, a schedule a list of task indexes (\<open>run_sched\<close>), and
    \<open>reach\<close> the inductive reachability relation.  Lemmas: the store and cache
    invariants and the task phases hold in every reachable state (rule
    induction); concurrent ContactPreferences updates are serializable and each
    finishes within four steps; for every invoice, payer and store in which the
    invoice's stream is empty, two \<open>sendEmail\<close> calls that both load before
    either attempts send two mails for one recorded \<open>EmailSent\<close>, whatever the
    order of their steps; and in any interleaving every attempt of a
    \<open>sendEmail\<close> call on a state without \<open>EmailSent\<close> mails, also one whose
    append conflicts and that then retries or fails (findings).
  \<^item> \<open>Reader\<close>: the category reader of the message-db consumer and the
    checkpoint store (spec sections 4.5 and 4.6, not under \<^verbatim>\<open>src/\<close>):
    \<open>readCategoryMessages\<close> with its condition flag, consumer-group shards by a
    hash parameter, batch, checkpoint and tail flag; \<open>writeSingleMessage\<close>; the
    checkpoint store as a map; the consumer loop \<open>consume\<close>.  The stores,
    reads and expectations of \<^verbatim>\<open>packages/message-db-consumer/tests/reader.test.mts\<close>
    are definitions (each test a predicate, \<open>test_read_category\<close>, ...,
    \<open>test_consumer_groups\<close>).  Line 44's \<open>pool.query\<close> is a statement in an
    implicit transaction of its own (\<open>pool_query\<close>), in which \<open>set_config\<close>
    with \<open>is_local = true\<close> (\<open>set_config_local\<close>) sets a transaction-local
    value that the commit drops.  The first two tests pass on any store in
    which the test's category is new and the feature is off; the condition
    test passes exactly when the feature is already on for the store, so the
    second and third tests cannot both pass against one server; the
    consumer-group test passes exactly when the shard hash puts one of its 100
    streams in each shard (findings).
    Lemmas: the consumer loop delivers every
    selected message once, in order, and leaves the checkpoint at the last one
    (\<open>consume_complete\<close>); with a batch size of zero it never ends; when
    the loop returns, the checkpoint it leaves is never below the one it
    resumed after; the
    checkpoint of a read does not decrease as its start position grows (spec
    section 8); the members of a consumer group select, with multiplicity,
    exactly the messages of the read without a group.
  \<^item> \<open>DocsConfig\<close>: \<^verbatim>\<open>docs/docusaurus.config.js\<close>, the exported configuration
    object as records and datatypes (\<open>config\<close>, the year of the copyright
    line a parameter).  Lemma: the URL, the base URL and the GitHub links of
    the object agree with its organisation and project names.
  \<^item> \<open>AccessStrategy\<close>: how the store back-ends the domains choose load a
    stream.  \<open>resolveCategory\<close> of the emailer (\<^verbatim>\<open>invoice-auto-emailer.ts\<close>,
    lines 80--87) loads by replaying the stream on the memory store
    (\<open>load_full\<close>) and by reading only the last event on message-db
    (\<open>load_latest_known\<close>); \<open>isOrigin\<close> and \<open>transmute\<close> of
    \<^verbatim>\<open>ContactPreferences.ts\<close> drive a custom strategy that keeps the decided
    events as unfolds at the stream's tip and loads by reading back to an
    origin (\<open>custom_load\<close>, \<open>custom_append\<close>).  Lemmas: the latest-known
    load equals the replay when every event decodes; on every stream whose
    last message has an unregistered type after an \<open>EmailSent\<close>, the first
    \<open>sendEmail\<close> attempt (\<open>sendEmail_first_attempt\<close>) decides nothing on the
    memory store and mails again on message-db (a finding); the custom strategy of ContactPreferences refines the replay
    of all decided events, for every sequence of decisions.  The back-ends are
    library code and their loads are modelled from the contract the domain
    code relies on.
  \<^item> \<open>CodecTests\<close>: \<^verbatim>\<open>packages/core/test/Codec.test.ts\<close>.  Payload values
    at run time are \<open>jsval\<close> (JSON values and \<open>Date\<close> objects), converted by
    \<open>of_json\<close> (what \<open>JSON.parse\<close> builds) and \<open>to_json\<close> (what
    \<open>JSON.stringify\<close> writes, dates as ISO strings).  The zod schemas the tests
    use (\<open>zod_object\<close>, \<open>zod_date\<close>, \<open>zod_string_datetime_date\<close>), the
    hand-written \<open>date\<close> and \<open>schema\<close> parsers (\<open>js_date\<close>, \<open>schema\<close>),
    the codecs the tests build (\<open>json_any\<close>, \<open>hello_codec\<close>) and each of the
    seven tests as a boolean definition (\<open>test_json_roundtrips\<close>, ...,
    \<open>test_custom_fails\<close>).  \<open>toISOString\<close>, \<open>new Date(string)\<close> and zod's
    datetime check are parameters bound by \<open>date_contract\<close>; a decimal
    instance shows the contract can be met.  Lemmas: every test passes for every
    time value \<open>new Date()\<close> returns; the zod codec round-trips every dated
    \<open>Hello\<close> event at every position; the codec with \<open>z.date()\<close> decodes no
    event at all (a finding).

  \<^item> \<open>Dispatch\<close>: the consumer that runs the emailer's \<open>createHandler\<close>
    (spec section 2; the dispatcher is library code, not under \<^verbatim>\<open>src/\<close>).
    \<open>stream_spans\<close> groups a batch by stream, \<open>dispatch_spans\<close> awaits the
    handler on each stream in turn, and \<open>consume_dispatch\<close> reads a batch from
    the shared store, dispatches it and only then writes the checkpoint.
    Lemmas: each stream of a batch is handled once with its messages in order;
    with a handler that only appends to other categories, the dispatching loop
    ends as \<open>consume\<close> does, with the same checkpoints
    (\<open>consume_dispatch_refines_consume\<close>); so the emailer's consumer
    runs to the tail of the category and checkpoints its last message
    (\<open>emailer_consumer_completes\<close>); a handled batch that is
    redelivered after a restart is the same batch, and handling it again
    mails nobody and writes nothing.

  \<^medskip>\<^bold>\<open>Bounds and choices.\<close>  The default retry budget of a decider is
  three attempts (\<open>cp_resolve\<close>, \<open>ae_resolve\<close>).  Strings are lists of 8-bit
  characters, so \<open>Buffer.from\<close> and \<open>toString\<close> are the identity on bytes;
  UTF-8 is not modelled.  JSON numbers are integers.  The consumer loop runs on
  fuel, one unit per batch: \<open>consume_complete\<close> shows that the number of
  selected messages divided by the batch size, plus one, is enough.  Stream
  ids that the code draws from \<open>randomUUID\<close> are fixed distinct names, and the
  theorems assume only that the categories are new.

  \<^medskip>\<^bold>\<open>Not modelled.\<close>  The zlib, SHA-256, zod string checks and
  \<open>randomUUID\<close> (library code; parameters of the model); promises of a single
  call (a call is a sequential function, and the interleaving of calls is the
  \<open>Concurrency\<close> theory); the cache's time-based expiry; the SQL of the
  message store (a condition is a predicate on messages); the payer service
  and mailer of the example app (not under \<^verbatim>\<open>src/\<close>; parameters); the date
  functions of the runtime and zod's string checks beyond the contract the codec
  tests rely on; JSON numbers that are not integers and \<open>\u\<close> escapes above
  \<open>0xFF\<close> (no payload of the two domains holds one: their events carry
  strings, booleans and ids); the concurrent handling of the streams of a
  batch by the dispatcher (they are handled in turn, which changes no result
  for the emailer, whose transactions append only to their own streams); what
  Docusaurus does with its configuration object (routes, links, the build),
  which is framework code, and the docs pages and sidebars (not under
  \<^verbatim>\<open>src/\<close>).
\<close>

end
